theory Spec2Isabelle
  imports Main "HOL-Library.Multiset" "HOL-Library.Product_Lexorder"
begin

section \<open>dbutils.c: conninfo parameter lists\<close>

text \<open>
  \<^verbatim>\<open>t_conninfo_param_list\<close> is a struct of an \<^verbatim>\<open>int size\<close> and two parallel arrays of
  C strings, \<^verbatim>\<open>keywords\<close> and \<^verbatim>\<open>values\<close>, each allocated with \<^verbatim>\<open>size + 1\<close> slots. A slot
  holding the NULL pointer is \<open>None\<close>; a slot holding a string is \<open>Some\<close> of its
  characters. The field names are taken in Isabelle, hence the
  suffix.
\<close>

record t_conninfo_param_list =
  size_pl :: nat
  keywords_pl :: "string option list"
  values_pl :: "string option list"

text \<open>One \<^verbatim>\<open>PQconninfoOption\<close> of the driver: only the two fields the module reads.\<close>

record PQconninfoOption =
  keyword :: string
  val :: "string option"

text \<open>
  \<^verbatim>\<open>param_set\<close>: the scan \<^verbatim>\<open>for (c = 0; c < size && keywords[c] != NULL; c++)\<close> overwrites
  the value at the first slot whose keyword compares equal and returns; after the scan,
  \<^verbatim>\<open>if (c < size)\<close> stores keyword and value in slot \<open>c\<close>; a full array is left as it is.
  Every stored string is a fresh copy of the whole argument (\<^verbatim>\<open>strlen + 1\<close> bytes).
\<close>

function param_set_loop ::
  "t_conninfo_param_list \<Rightarrow> string \<Rightarrow> string \<Rightarrow> nat \<Rightarrow> t_conninfo_param_list" where
  "param_set_loop param_list param value c =
     (if c < size_pl param_list \<and> keywords_pl param_list ! c \<noteq> None then
        if keywords_pl param_list ! c = Some param then
          param_list\<lparr>values_pl := (values_pl param_list)[c := Some value]\<rparr>
        else param_set_loop param_list param value (Suc c)
      else if c < size_pl param_list then
        param_list\<lparr>keywords_pl := (keywords_pl param_list)[c := Some param],
                   values_pl := (values_pl param_list)[c := Some value]\<rparr>
      else param_list)"
  by pat_completeness auto
termination
  by (relation "measure (\<lambda>(pl, p, v, c). size_pl pl - c)") auto

declare param_set_loop.simps [simp del]

definition param_set :: "t_conninfo_param_list \<Rightarrow> string \<Rightarrow> string \<Rightarrow> t_conninfo_param_list" where
  "param_set param_list param value = param_set_loop param_list param value 0"

text \<open>
  \<^verbatim>\<open>param_get\<close>: the same scan; at the first slot whose keyword compares equal it returns
  the value when that is neither NULL nor the empty string, and NULL otherwise; NULL when
  the scan ends without a match. The NULL result is \<open>None\<close>.
\<close>

function param_get_loop :: "t_conninfo_param_list \<Rightarrow> string \<Rightarrow> nat \<Rightarrow> string option" where
  "param_get_loop param_list param c =
     (if c < size_pl param_list \<and> keywords_pl param_list ! c \<noteq> None then
        if keywords_pl param_list ! c = Some param then
          (case values_pl param_list ! c of
             None \<Rightarrow> None
           | Some v \<Rightarrow> if v \<noteq> [] then Some v else None)
        else param_get_loop param_list param (Suc c)
      else None)"
  by pat_completeness auto
termination
  by (relation "measure (\<lambda>(pl, p, c). size_pl pl - c)") auto

declare param_get_loop.simps [simp del]

definition param_get :: "t_conninfo_param_list \<Rightarrow> string \<Rightarrow> string option" where
  "param_get param_list param = param_get_loop param_list param 0"

text \<open>
  \<^verbatim>\<open>initialize_conninfo_params\<close>: \<open>defs\<close> is what the driver's \<^verbatim>\<open>PQconndefaults\<close> returns.
  The list gets one slot per default plus one, all NULL; with \<open>set_defaults\<close> every default
  with a non-empty value is then stored through \<open>param_set\<close>.
\<close>

definition initialize_conninfo_params ::
  "PQconninfoOption list \<Rightarrow> bool \<Rightarrow> t_conninfo_param_list" where
  "initialize_conninfo_params defs set_defaults =
     (let param_list = \<lparr>size_pl = length defs,
                         keywords_pl = replicate (length defs + 1) None,
                         values_pl = replicate (length defs + 1) None\<rparr>
      in if set_defaults then
           fold (\<lambda>def pl. case val def of
                             None \<Rightarrow> pl
                           | Some v \<Rightarrow> if v \<noteq> [] then param_set pl (keyword def) v else pl)
                defs param_list
         else param_list)"

text \<open>
  \<^verbatim>\<open>parse_conninfo_string\<close>. The driver's parser \<^verbatim>\<open>PQconninfoParse(conninfo_str, &errmsg)\<close>
  is a parameter: it gives \<open>Inl\<close> of its diagnostic text when it returns NULL, and \<open>Inr\<close> of
  the option array otherwise. The C parameter \<^verbatim>\<open>char *errmsg\<close> is passed by value, and
  the parser is handed the address of that parameter: the diagnostic is stored in the
  callee's own copy \<open>errmsg_local\<close>. The third component of the result is the \<^verbatim>\<open>errmsg\<close>
  variable of the caller as it is after the call.
\<close>

definition parse_conninfo_string ::
  "(string \<Rightarrow> string + PQconninfoOption list) \<Rightarrow> string \<Rightarrow> t_conninfo_param_list \<Rightarrow>
   string option \<Rightarrow> bool \<Rightarrow> bool \<times> t_conninfo_param_list \<times> string option" where
  "parse_conninfo_string PQconninfoParse conninfo_str param_list errmsg ignore_application_name =
     (case PQconninfoParse conninfo_str of
        Inl diagnostic \<Rightarrow>
          (let errmsg_local = Some diagnostic in (False, param_list, errmsg))
      | Inr connOptions \<Rightarrow>
          (True,
           fold (\<lambda>option pl.
                   if val option = None \<or> val option = Some [] then pl
                   else if ignore_application_name \<and> keyword option = ''application_name'' then pl
                   else param_set pl (keyword option) (the (val option)))
                connOptions param_list,
           errmsg))"

text \<open>
  The position at which the scan shared by \<open>param_set\<close> and \<open>param_get\<close> stops, and
  whether it stopped on a match. It reads only the size and the keywords.
\<close>

function scan_pl :: "nat \<Rightarrow> string option list \<Rightarrow> string \<Rightarrow> nat \<Rightarrow> bool \<times> nat" where
  "scan_pl n ks param c =
     (if c < n \<and> ks ! c \<noteq> None then
        if ks ! c = Some param then (True, c) else scan_pl n ks param (Suc c)
      else (False, c))"
  by pat_completeness auto
termination
  by (relation "measure (\<lambda>(n, ks, p, c). n - c)") auto

declare scan_pl.simps [simp del]

text \<open>
  The lists the module builds: both arrays have \<open>size + 1\<close> slots, the keywords in use
  form a prefix of the array with NULL in every slot behind it, and no keyword is stored
  twice.
\<close>

definition param_list_wf :: "t_conninfo_param_list \<Rightarrow> bool" where
  "param_list_wf pl \<longleftrightarrow>
     length (keywords_pl pl) = size_pl pl + 1 \<and>
     length (values_pl pl) = size_pl pl + 1 \<and>
     list_all (\<lambda>k. k = None) (dropWhile (\<lambda>k. k \<noteq> None) (keywords_pl pl)) \<and>
     distinct (takeWhile (\<lambda>k. k \<noteq> None) (keywords_pl pl)) \<and>
     keywords_pl pl ! size_pl pl = None"

text \<open>Spare capacity: one of the \<open>size\<close> usable slots still has a NULL keyword.\<close>

definition spare_capacity :: "t_conninfo_param_list \<Rightarrow> bool" where
  "spare_capacity pl \<longleftrightarrow> None \<in> set (take (size_pl pl) (keywords_pl pl))"

section \<open>The driver and the servers behind it\<close>

text \<open>
  Constants of \<^verbatim>\<open>repmgr.h\<close> and its headers, which are not part of the sources at hand:
  the buffer lengths \<^verbatim>\<open>MAXLEN\<close> and \<^verbatim>\<open>MAXCONNINFO\<close> and the sentinels \<^verbatim>\<open>NODE_NOT_FOUND\<close> and
  \<^verbatim>\<open>NO_UPSTREAM_NODE\<close>. Every function that uses one takes the record as its first
  argument; no theorem depends on their values.
\<close>

record repmgr_h =
  MAXLEN :: nat
  MAXCONNINFO :: nat
  NODE_NOT_FOUND :: int
  NO_UPSTREAM_NODE :: int

datatype ConnStatusType = CONNECTION_OK | CONNECTION_BAD

datatype ExecStatusType = PGRES_COMMAND_OK | PGRES_TUPLES_OK | PGRES_FATAL_ERROR

text \<open>
  A \<^verbatim>\<open>PGresult\<close> of a statement with one output column: its status and the first value of
  each tuple, as text. A NULL result pointer is \<open>None\<close>.
\<close>

record PGresult =
  resultStatus :: ExecStatusType
  tuples :: "string list"

text \<open>A row of the relation \<^verbatim>\<open>repmgr.nodes\<close>; a nullable column is an option.\<close>

record node_row =
  col_node_id :: int
  col_type :: string
  col_upstream_node_id :: "int option"
  col_node_name :: string
  col_conninfo :: string
  col_slot_name :: "string option"
  col_priority :: int
  col_active :: bool

text \<open>
  A database server as the module sees it through a connection: the status \<^verbatim>\<open>PQstatus\<close>
  reports, its reply to an SQL text (for \<^verbatim>\<open>SET\<close> and for the recovery probe), whether it
  executes statements on \<^verbatim>\<open>repmgr.nodes\<close>, and the rows of that relation. The statements
  on \<^verbatim>\<open>repmgr.nodes\<close> are modelled by their meaning on \<open>nodes\<close>, not as text.
\<close>

record server =
  srv_status :: ConnStatusType
  srv_exec :: "string \<Rightarrow> PGresult option"
  nodes_ok :: bool
  nodes :: "node_row list"

text \<open>A \<^verbatim>\<open>PGconn\<close> object: its identity and the server it talks to.\<close>

record PGconn =
  handle :: nat
  server :: server

text \<open>
  The driver calls made on candidate connections, in order, and the driver's store of
  \<^verbatim>\<open>PGconn\<close> objects: how many were created, and which of them \<^verbatim>\<open>PQfinish\<close> has not yet
  released. \<^verbatim>\<open>PQconnectdb\<close> returns an object also when the connection attempt fails.
\<close>

datatype libpq_call = Connectdb string | Exec nat string | Finish nat

record libpq =
  allocated :: nat
  unfinished :: "nat list"
  calls :: "libpq_call list"

definition PQconnectdb :: "(string \<Rightarrow> server) \<Rightarrow> string \<Rightarrow> libpq \<Rightarrow> PGconn \<times> libpq" where
  "PQconnectdb cluster connection_string st =
     (\<lparr>handle = allocated st, server = cluster connection_string\<rparr>,
      st\<lparr>allocated := Suc (allocated st),
         unfinished := unfinished st @ [allocated st],
         calls := calls st @ [Connectdb connection_string]\<rparr>)"

definition PQstatus :: "PGconn \<Rightarrow> ConnStatusType" where
  "PQstatus conn = srv_status (server conn)"

definition PQexec :: "PGconn \<Rightarrow> string \<Rightarrow> libpq \<Rightarrow> PGresult option \<times> libpq" where
  "PQexec conn sqlquery st =
     (srv_exec (server conn) sqlquery, st\<lparr>calls := calls st @ [Exec (handle conn) sqlquery]\<rparr>)"

definition PQfinish :: "PGconn \<Rightarrow> libpq \<Rightarrow> libpq" where
  "PQfinish conn st =
     st\<lparr>unfinished := removeAll (handle conn) (unfinished st),
        calls := calls st @ [Finish (handle conn)]\<rparr>"

definition PQresultStatus :: "PGresult option \<Rightarrow> ExecStatusType" where
  "PQresultStatus res = (case res of None \<Rightarrow> PGRES_FATAL_ERROR | Some r \<Rightarrow> resultStatus r)"

definition PQntuples :: "PGresult option \<Rightarrow> nat" where
  "PQntuples res = (case res of None \<Rightarrow> 0 | Some r \<Rightarrow> length (tuples r))"

section \<open>dbutils.c: connections and server information\<close>

text \<open>
  \<^verbatim>\<open>_set_config\<close> and \<^verbatim>\<open>set_config\<close> (an identifier cannot start with an underscore here).
  Logging is left out throughout; \<^verbatim>\<open>sqlquery_snprintf\<close> is taken not to truncate.
\<close>

definition static_set_config :: "PGconn \<Rightarrow> string \<Rightarrow> string \<Rightarrow> libpq \<Rightarrow> bool \<times> libpq" where
  "static_set_config conn config_param sqlquery st =
     (let (res, st1) = PQexec conn sqlquery st
      in if PQresultStatus res \<noteq> PGRES_COMMAND_OK then (False, st1) else (True, st1))"

definition set_config :: "PGconn \<Rightarrow> string \<Rightarrow> string \<Rightarrow> libpq \<Rightarrow> bool \<times> libpq" where
  "set_config conn config_param config_value st =
     static_set_config conn config_param
       (''SET '' @ config_param @ '' TO '' @ [CHR 0x27] @ config_value @ [CHR 0x27]) st"

text \<open>
  \<^verbatim>\<open>_establish_db_connection\<close>: \<^verbatim>\<open>strncpy\<close> of the conninfo into a buffer of \<^verbatim>\<open>MAXLEN\<close> bytes,
  the fallback application name appended, \<^verbatim>\<open>PQconnectdb\<close>. A call of \<^verbatim>\<open>exit(ERR_DB_CON)\<close> is
  the result \<open>Inl ERR_DB_CON\<close>. With \<open>exit_on_error\<close> false the object is returned whatever
  its status, and a failed \<^verbatim>\<open>SET synchronous_commit\<close> changes nothing. The two flags that
  only choose the log level are kept as arguments.
\<close>

datatype exit_code = ERR_DB_CON

definition static_establish_db_connection ::
  "repmgr_h \<Rightarrow> (string \<Rightarrow> server) \<Rightarrow> string \<Rightarrow> bool \<Rightarrow> bool \<Rightarrow> bool \<Rightarrow> libpq \<Rightarrow>
   exit_code + PGconn \<times> libpq" where
  "static_establish_db_connection h cluster conninfo exit_on_error log_notice verbose_only st =
     (let connection_string =
            take (MAXLEN h) conninfo @ '' fallback_application_name='repmgr'' @ [CHR 0x27];
          (conn, st1) = PQconnectdb cluster connection_string st
      in if PQstatus conn \<noteq> CONNECTION_OK then
           if exit_on_error then Inl ERR_DB_CON else Inr (conn, st1)
         else
           let (ok, st2) = set_config conn ''synchronous_commit'' ''local'' st1
           in if \<not> ok then
                if exit_on_error then Inl ERR_DB_CON else Inr (conn, st2)
              else Inr (conn, st2))"

definition establish_db_connection ::
  "repmgr_h \<Rightarrow> (string \<Rightarrow> server) \<Rightarrow> string \<Rightarrow> bool \<Rightarrow> libpq \<Rightarrow> exit_code + PGconn \<times> libpq" where
  "establish_db_connection h cluster conninfo exit_on_error st =
     static_establish_db_connection h cluster conninfo exit_on_error False False st"

text \<open>
  \<^verbatim>\<open>is_standby\<close>: \<open>is_standby_result\<close> is the branch on the result of the probe query,
  \<open>- 1\<close> for a NULL result or a status other than \<^verbatim>\<open>PGRES_TUPLES_OK\<close>, \<open>1\<close> for exactly one
  tuple whose value is \<^verbatim>\<open>"t"\<close>, and \<open>0\<close>, the initial value of \<^verbatim>\<open>result\<close>, otherwise.
\<close>

definition is_standby_result :: "PGresult option \<Rightarrow> int" where
  "is_standby_result res =
     (if res = None \<or> PQresultStatus res \<noteq> PGRES_TUPLES_OK then - 1
      else if PQntuples res = 1 \<and> tuples (the res) ! 0 = ''t'' then 1
      else 0)"

definition is_standby :: "PGconn \<Rightarrow> libpq \<Rightarrow> int \<times> libpq" where
  "is_standby conn st =
     (let (res, st1) = PQexec conn ''SELECT pg_catalog.pg_is_in_recovery()'' st
      in (is_standby_result res, st1))"

section \<open>dbutils.c: get\_master\_connection\<close>

text \<open>
  The node list query,
  \<^verbatim>\<open>SELECT node_id, conninfo, CASE WHEN type = 'master' THEN 1 ELSE 2 END AS type_priority
  FROM repmgr.nodes WHERE type != 'witness'
  ORDER BY active DESC, type_priority, priority, node_id\<close>,
  by its meaning: the rows that pass the \<^verbatim>\<open>WHERE\<close> clause, sorted on the tuple of the four
  sort expressions under the lexicographic order. \<^verbatim>\<open>active DESC\<close> puts true first, which
  is the ascending order of the negation.
\<close>

definition type_priority :: "node_row \<Rightarrow> int" where
  "type_priority r = (if col_type r = ''master'' then 1 else 2)"

definition node_list_order :: "node_row \<Rightarrow> bool \<times> int \<times> int \<times> int" where
  "node_list_order r = (\<not> col_active r, type_priority r, col_priority r, col_node_id r)"

definition node_list_rows :: "node_row list \<Rightarrow> node_row list" where
  "node_list_rows ns = sort_key node_list_order (filter (\<lambda>r. col_type r \<noteq> ''witness'') ns)"

definition node_list_query :: "PGconn \<Rightarrow> ExecStatusType \<times> (int \<times> string \<times> int) list" where
  "node_list_query conn =
     (if nodes_ok (server conn) then
        (PGRES_TUPLES_OK,
         map (\<lambda>r. (col_node_id r, col_conninfo r, type_priority r))
             (node_list_rows (nodes (server conn))))
      else (PGRES_FATAL_ERROR, []))"

text \<open>
  The loop over the tuples of the result. The state carried through it is the conninfo
  buffer \<^verbatim>\<open>remote_conninfo\<close>, the integer behind \<^verbatim>\<open>master_id\<close> (\<open>None\<close> when the caller
  passed NULL) and the driver. \<^verbatim>\<open>strncpy(remote_conninfo, ..., MAXCONNINFO)\<close> leaves the
  first \<^verbatim>\<open>MAXCONNINFO\<close> characters in the buffer. The result is the returned connection
  (\<open>None\<close> for NULL) with the final state.
\<close>

fun get_master_connection_loop ::
  "repmgr_h \<Rightarrow> (string \<Rightarrow> server) \<Rightarrow> (int \<times> string \<times> int) list \<Rightarrow>
   string \<times> int option \<times> libpq \<Rightarrow>
   exit_code + PGconn option \<times> string \<times> int option \<times> libpq" where
  "get_master_connection_loop h cluster [] (remote_conninfo, master_id, st) =
     Inr (None, remote_conninfo, master_id, st)"
| "get_master_connection_loop h cluster ((node_id, conninfo, tp) # res)
     (remote_conninfo0, master_id, st) =
     (let remote_conninfo = take (MAXCONNINFO h) conninfo
      in case establish_db_connection h cluster remote_conninfo False st of
           Inl e \<Rightarrow> Inl e
         | Inr (remote_conn, st1) \<Rightarrow>
             if PQstatus remote_conn \<noteq> CONNECTION_OK then
               get_master_connection_loop h cluster res (remote_conninfo, master_id, st1)
             else
               let (is_node_standby, st2) = is_standby remote_conn st1
               in if is_node_standby = - 1 then
                    get_master_connection_loop h cluster res
                      (remote_conninfo, master_id, PQfinish remote_conn st2)
                  else if is_node_standby = 0 then
                    Inr (Some remote_conn, remote_conninfo,
                         (case master_id of None \<Rightarrow> None | Some _ \<Rightarrow> Some node_id), st2)
                  else
                    get_master_connection_loop h cluster res
                      (remote_conninfo, master_id, PQfinish remote_conn st2))"

text \<open>
  \<^verbatim>\<open>get_master_connection(conn, master_id, master_conninfo_out)\<close>. An out-parameter is
  \<open>None\<close> when the caller passes NULL and \<open>Some\<close> of what it points to otherwise; the
  result gives the returned connection, then what \<^verbatim>\<open>master_id\<close> and
  \<^verbatim>\<open>master_conninfo_out\<close> point to on return, then the driver. Without a caller buffer
  the loop writes to a local array, whose content does not leave the function.
\<close>

definition get_master_connection ::
  "repmgr_h \<Rightarrow> (string \<Rightarrow> server) \<Rightarrow> PGconn \<Rightarrow> int option \<Rightarrow> string option \<Rightarrow> libpq \<Rightarrow>
   exit_code + PGconn option \<times> int option \<times> string option \<times> libpq" where
  "get_master_connection h cluster conn master_id master_conninfo_out st =
     (let remote_conninfo = (case master_conninfo_out of None \<Rightarrow> [] | Some b \<Rightarrow> b);
          master_id1 = (case master_id of None \<Rightarrow> None | Some _ \<Rightarrow> Some (NODE_NOT_FOUND h));
          (status, res) = node_list_query conn
      in if status \<noteq> PGRES_TUPLES_OK then Inr (None, master_id1, master_conninfo_out, st)
         else
           case get_master_connection_loop h cluster res (remote_conninfo, master_id1, st) of
             Inl e \<Rightarrow> Inl e
           | Inr (remote_conn, buf, master_id2, st') \<Rightarrow>
               Inr (remote_conn, master_id2,
                    (case master_conninfo_out of None \<Rightarrow> None | Some _ \<Rightarrow> Some buf), st'))"

section \<open>Notions for stating the properties of get\_master\_connection\<close>

text \<open>
  The connection string \<^verbatim>\<open>PQconnectdb\<close> receives for a node whose stored conninfo is
  \<open>conninfo\<close> (after the two \<^verbatim>\<open>strncpy\<close> and the \<^verbatim>\<open>strcat\<close>), the server behind it, whether
  the connection attempt fails, and what \<open>is_standby\<close> returns on that server.
\<close>

definition candidate_connection_string :: "repmgr_h \<Rightarrow> string \<Rightarrow> string" where
  "candidate_connection_string h conninfo =
     take (MAXLEN h) (take (MAXCONNINFO h) conninfo)
       @ '' fallback_application_name='repmgr'' @ [CHR 0x27]"

definition candidate_server :: "repmgr_h \<Rightarrow> (string \<Rightarrow> server) \<Rightarrow> string \<Rightarrow> server" where
  "candidate_server h cluster conninfo = cluster (candidate_connection_string h conninfo)"

definition connect_fails :: "repmgr_h \<Rightarrow> (string \<Rightarrow> server) \<Rightarrow> string \<Rightarrow> bool" where
  "connect_fails h cluster conninfo \<longleftrightarrow>
     srv_status (candidate_server h cluster conninfo) \<noteq> CONNECTION_OK"

definition probe_result :: "repmgr_h \<Rightarrow> (string \<Rightarrow> server) \<Rightarrow> string \<Rightarrow> int" where
  "probe_result h cluster conninfo =
     is_standby_result
       (srv_exec (candidate_server h cluster conninfo) ''SELECT pg_catalog.pg_is_in_recovery()'')"

text \<open>
  A candidate tuple is passed over when its connection attempt fails, its probe fails
  (\<open>- 1\<close>) or it reports recovering (\<open>1\<close>); it is taken when it connects and reports
  not recovering (\<open>0\<close>).
\<close>

definition passed_over :: "repmgr_h \<Rightarrow> (string \<Rightarrow> server) \<Rightarrow> int \<times> string \<times> int \<Rightarrow> bool" where
  "passed_over h cluster t \<longleftrightarrow>
     connect_fails h cluster (fst (snd t)) \<or>
     probe_result h cluster (fst (snd t)) = - 1 \<or>
     probe_result h cluster (fst (snd t)) = 1"

definition taken :: "repmgr_h \<Rightarrow> (string \<Rightarrow> server) \<Rightarrow> int \<times> string \<times> int \<Rightarrow> bool" where
  "taken h cluster t \<longleftrightarrow>
     \<not> connect_fails h cluster (fst (snd t)) \<and> probe_result h cluster (fst (snd t)) = 0"

text \<open>
  Read from the driver's record of calls: the connection strings given to
  \<^verbatim>\<open>PQconnectdb\<close>, and the handles on which the recovery probe was run, both in order.
\<close>

definition connected :: "libpq \<Rightarrow> string list" where
  "connected st = concat (map (\<lambda>c. case c of Connectdb s \<Rightarrow> [s] | _ \<Rightarrow> []) (calls st))"

definition probed :: "libpq \<Rightarrow> nat list" where
  "probed st =
     concat (map (\<lambda>c. case c of
                         Exec n q \<Rightarrow> if q = ''SELECT pg_catalog.pg_is_in_recovery()'' then [n] else []
                       | _ \<Rightarrow> []) (calls st))"

text \<open>
  What one turn of the loop does to the driver for a candidate it passes over: the
  connection attempt and, when that succeeds, the probe followed by \<^verbatim>\<open>PQfinish\<close>.
\<close>

definition pass_over :: "repmgr_h \<Rightarrow> (string \<Rightarrow> server) \<Rightarrow> int \<times> string \<times> int \<Rightarrow> libpq \<Rightarrow> libpq" where
  "pass_over h cluster t st =
     (case establish_db_connection h cluster (take (MAXCONNINFO h) (fst (snd t))) False st of
        Inl e \<Rightarrow> st
      | Inr (remote_conn, st1) \<Rightarrow>
          if PQstatus remote_conn \<noteq> CONNECTION_OK then st1
          else PQfinish remote_conn (snd (is_standby remote_conn st1)))"

text \<open>The driver after the connection attempt and the probe of a candidate that is returned.\<close>

definition take_candidate :: "repmgr_h \<Rightarrow> (string \<Rightarrow> server) \<Rightarrow> int \<times> string \<times> int \<Rightarrow> libpq \<Rightarrow> libpq" where
  "take_candidate h cluster t st =
     (case establish_db_connection h cluster (take (MAXCONNINFO h) (fst (snd t))) False st of
        Inl e \<Rightarrow> st
      | Inr (remote_conn, st1) \<Rightarrow> snd (is_standby remote_conn st1))"

text \<open>The driver's store is consistent when every unreleased handle was handed out.\<close>

definition libpq_ok :: "libpq \<Rightarrow> bool" where
  "libpq_ok st \<longleftrightarrow> (\<forall>n \<in> set (unfinished st). n < allocated st)"

text \<open>
  The bounds within which the C code handles a stored conninfo without leaving an
  array. \<^verbatim>\<open>strncpy(remote_conninfo, ..., MAXCONNINFO)\<close> writes the terminator only for fewer
  than \<^verbatim>\<open>MAXCONNINFO\<close> characters, and the buffer is then read as a C string;
  \<^verbatim>\<open>connection_string[MAXLEN]\<close> has room for the conninfo, the 35 characters that \<^verbatim>\<open>strcat\<close>
  appends and the terminator only when they are at most \<^verbatim>\<open>MAXLEN\<close> together. Outside these
  bounds the behaviour of the code is undefined, while the functions above go on with the
  characters that were copied: what is proved of them is a property of the code only
  within the bounds.
\<close>

definition conninfo_fits :: "repmgr_h \<Rightarrow> string \<Rightarrow> bool" where
  "conninfo_fits h ci \<longleftrightarrow> length ci < MAXCONNINFO h \<and> length ci + 36 \<le> MAXLEN h"

text \<open>
  The handles the recovery probe is run on when the loop goes through a list of
  candidates, the first of which gets the handle \<open>n\<close>: one for each candidate that
  connects.
\<close>

fun probe_handles ::
  "repmgr_h \<Rightarrow> (string \<Rightarrow> server) \<Rightarrow> nat \<Rightarrow> (int \<times> string \<times> int) list \<Rightarrow> nat list" where
  "probe_handles h cluster n [] = []"
| "probe_handles h cluster n (t # ts) =
     (if connect_fails h cluster (fst (snd t)) then [] else [n]) @ probe_handles h cluster (Suc n) ts"

section \<open>dbutils.c: node records\<close>

datatype t_server_type = UNKNOWN | MASTER | STANDBY | WITNESS | BDR

text \<open>
  \<^verbatim>\<open>t_node_info\<close>: the persisted fields and the two runtime flags (\<^verbatim>\<open>xlog_location\<close>, which
  only \<^verbatim>\<open>_populate_node_record\<close> sets, is left out). \<^verbatim>\<open>upstream_node_id\<close> is an
  \<^verbatim>\<open>int\<close> whose absent value is the sentinel \<^verbatim>\<open>NO_UPSTREAM_NODE\<close>; an unset \<^verbatim>\<open>slot_name\<close>
  is the empty string.
\<close>

record t_node_info =
  node_id :: int
  type :: t_server_type
  upstream_node_id :: int
  node_name :: string
  conninfo :: string
  slot_name :: string
  priority :: int
  active :: bool
  is_ready :: bool
  is_visible :: bool

fun get_node_type_string :: "t_server_type \<Rightarrow> string" where
  "get_node_type_string MASTER = ''master''"
| "get_node_type_string STANDBY = ''standby''"
| "get_node_type_string WITNESS = ''witness''"
| "get_node_type_string BDR = ''bdr''"
| "get_node_type_string UNKNOWN = ''unknown''"

text \<open>
  \<^verbatim>\<open>get_master_node_id\<close>:
  \<^verbatim>\<open>SELECT node_id FROM repmgr.nodes WHERE type = 'master' AND active IS TRUE\<close>;
  \<^verbatim>\<open>NODE_NOT_FOUND\<close> when the query fails or gives no tuple, the first tuple's id otherwise.
  The query has no \<^verbatim>\<open>ORDER BY\<close>; the tuples are taken in the order of the relation.
\<close>

definition get_master_node_id :: "repmgr_h \<Rightarrow> PGconn \<Rightarrow> int" where
  "get_master_node_id h conn =
     (if \<not> nodes_ok (server conn) then NODE_NOT_FOUND h
      else case filter (\<lambda>r. col_type r = ''master'' \<and> col_active r) (nodes (server conn)) of
             [] \<Rightarrow> NODE_NOT_FOUND h
           | r # _ \<Rightarrow> col_node_id r)"

text \<open>
  The two statements that write \<^verbatim>\<open>repmgr.nodes\<close>, by their meaning. \<^verbatim>\<open>INSERT\<close> adds the
  row unless the server refuses statements on the relation or the primary key
  \<^verbatim>\<open>node_id\<close> is taken; \<^verbatim>\<open>UPDATE ... WHERE node_id = n\<close> sets every other column of the
  rows with that id.
\<close>

definition insert_node_row :: "PGconn \<Rightarrow> node_row \<Rightarrow> ExecStatusType \<times> PGconn" where
  "insert_node_row conn row =
     (if nodes_ok (server conn) \<and> col_node_id row \<notin> col_node_id ` set (nodes (server conn)) then
        (PGRES_COMMAND_OK,
         conn\<lparr>server := (server conn)\<lparr>nodes := nodes (server conn) @ [row]\<rparr>\<rparr>)
      else (PGRES_FATAL_ERROR, conn))"

definition update_node_row :: "PGconn \<Rightarrow> node_row \<Rightarrow> ExecStatusType \<times> PGconn" where
  "update_node_row conn row =
     (if nodes_ok (server conn) then
        (PGRES_COMMAND_OK,
         conn\<lparr>server := (server conn)\<lparr>nodes :=
           map (\<lambda>r. if col_node_id r = col_node_id row then row else r) (nodes (server conn))\<rparr>\<rparr>)
      else (PGRES_FATAL_ERROR, conn))"

text \<open>
  The text of both statements is built with \<^verbatim>\<open>appendPQExpBuffer\<close>: \<^verbatim>\<open>node_name\<close> and
  \<^verbatim>\<open>conninfo\<close> are pasted between quotes with \<^verbatim>\<open>'%s'\<close>, without escaping; the slot name
  goes with its two quotes through \<^verbatim>\<open>slot_name_buf[MAXLEN]\<close>, and the upstream id, an
  \<^verbatim>\<open>int\<close> of at most eleven characters, through \<^verbatim>\<open>upstream_node_id[MAXLEN]\<close>, both written by
  \<^verbatim>\<open>maxlen_snprintf\<close>, which cuts at \<^verbatim>\<open>MAXLEN - 1\<close> characters. The text is the statement
  meant only if no pasted string holds a quote or a backslash and neither buffer cuts
  its text. Otherwise the server receives some other text (a quote in \<^verbatim>\<open>node_name\<close> can end
  the literal and change the rest of the statement); what it does with it is not
  described here, and the result is \<open>Inl Unescaped_statement\<close>.
\<close>

definition sql_plain :: "string \<Rightarrow> bool" where
  "sql_plain s \<longleftrightarrow> CHR 0x27 \<notin> set s \<and> CHR 0x5C \<notin> set s"

definition statement_as_meant :: "repmgr_h \<Rightarrow> t_node_info \<Rightarrow> bool" where
  "statement_as_meant h node_info \<longleftrightarrow>
     sql_plain (node_name node_info) \<and> sql_plain (conninfo node_info) \<and>
     sql_plain (slot_name node_info) \<and>
     length (slot_name node_info) + 2 < MAXLEN h \<and> 11 < MAXLEN h"

datatype unescaped = Unescaped_statement

text \<open>
  \<^verbatim>\<open>create_node_record\<close> and \<^verbatim>\<open>update_node_record\<close>. The text buffer \<^verbatim>\<open>upstream_node_id\<close>
  holds either the decimal form of an integer or the word \<^verbatim>\<open>NULL\<close>: \<open>Some\<close> of the integer
  or \<open>None\<close>. The same holds for \<^verbatim>\<open>slot_name_buf\<close>. The result is the returned flag and
  the connection with the relation as the statement left it.
\<close>

definition create_node_record ::
  "repmgr_h \<Rightarrow> PGconn \<Rightarrow> string option \<Rightarrow> t_node_info \<Rightarrow> unescaped + bool \<times> PGconn" where
  "create_node_record h conn action node_info =
     (let upstream_node_id_buf =
            (if upstream_node_id node_info = NO_UPSTREAM_NODE h then
               if type node_info = STANDBY then
                 (let primary_node_id = get_master_node_id h conn in Some primary_node_id)
               else None
             else Some (upstream_node_id node_info));
          slot_name_buf = (if slot_name node_info \<noteq> [] then Some (slot_name node_info) else None)
      in if \<not> statement_as_meant h node_info then Inl Unescaped_statement
         else
           let (status, conn1) = insert_node_row conn
             \<lparr>col_node_id = node_id node_info,
              col_type = get_node_type_string (type node_info),
              col_upstream_node_id = upstream_node_id_buf,
              col_node_name = node_name node_info,
              col_conninfo = conninfo node_info,
              col_slot_name = slot_name_buf,
              col_priority = priority node_info,
              col_active = active node_info\<rparr>
           in if status \<noteq> PGRES_COMMAND_OK then Inr (False, conn1) else Inr (True, conn1))"

definition update_node_record ::
  "repmgr_h \<Rightarrow> PGconn \<Rightarrow> string option \<Rightarrow> t_node_info \<Rightarrow> unescaped + bool \<times> PGconn" where
  "update_node_record h conn action node_info =
     (let upstream_node_id_buf =
            (if upstream_node_id node_info = NO_UPSTREAM_NODE h then
               if type node_info = STANDBY then
                 (let primary_node_id = get_master_node_id h conn in Some primary_node_id)
               else None
             else Some (upstream_node_id node_info));
          slot_name_buf = (if slot_name node_info \<noteq> [] then Some (slot_name node_info) else None)
      in if \<not> statement_as_meant h node_info then Inl Unescaped_statement
         else
           let (status, conn1) = update_node_row conn
             \<lparr>col_node_id = node_id node_info,
              col_type = get_node_type_string (type node_info),
              col_upstream_node_id = upstream_node_id_buf,
              col_node_name = node_name node_info,
              col_conninfo = conninfo node_info,
              col_slot_name = slot_name_buf,
              col_priority = priority node_info,
              col_active = active node_info\<rparr>
           in if status \<noteq> PGRES_COMMAND_OK then Inr (False, conn1) else Inr (True, conn1))"

text \<open>The upstream ids stored in the relation for a node id.\<close>

definition stored_upstream :: "PGconn \<Rightarrow> int \<Rightarrow> int option list" where
  "stored_upstream conn n =
     map col_upstream_node_id (filter (\<lambda>r. col_node_id r = n) (nodes (server conn)))"

section \<open>A small cluster for the examples\<close>

text \<open>
  Five servers: \<open>n1\<close> is in recovery, \<open>n2\<close> is not, \<open>n3\<close> refuses connections, \<open>n4\<close> accepts
  them but fails the probe query, \<open>n5\<close> answers the probe query with no tuple. Any other
  connection string reaches nothing.
\<close>

definition example_h :: repmgr_h where
  "example_h = \<lparr>MAXLEN = 1024, MAXCONNINFO = 1024, NODE_NOT_FOUND = - 1, NO_UPSTREAM_NODE = - 1\<rparr>"

definition example_server :: "PGresult option \<Rightarrow> server" where
  "example_server reply =
     \<lparr>srv_status = CONNECTION_OK,
      srv_exec = (\<lambda>q. if q = ''SELECT pg_catalog.pg_is_in_recovery()'' then reply
                      else Some \<lparr>resultStatus = PGRES_COMMAND_OK, tuples = []\<rparr>),
      nodes_ok = False, nodes = []\<rparr>"

definition example_down :: server where
  "example_down = \<lparr>srv_status = CONNECTION_BAD, srv_exec = (\<lambda>q. None), nodes_ok = False, nodes = []\<rparr>"

definition example_cluster :: "string \<Rightarrow> server" where
  "example_cluster s =
     (if s = candidate_connection_string example_h ''host=n1''
      then example_server (Some \<lparr>resultStatus = PGRES_TUPLES_OK, tuples = [''t'']\<rparr>)
      else if s = candidate_connection_string example_h ''host=n2''
      then example_server (Some \<lparr>resultStatus = PGRES_TUPLES_OK, tuples = [''f'']\<rparr>)
      else if s = candidate_connection_string example_h ''host=n4''
      then example_server (Some \<lparr>resultStatus = PGRES_FATAL_ERROR, tuples = []\<rparr>)
      else if s = candidate_connection_string example_h ''host=n5''
      then example_server (Some \<lparr>resultStatus = PGRES_TUPLES_OK, tuples = []\<rparr>)
      else example_down)"

definition example_row :: "int \<Rightarrow> string \<Rightarrow> string \<Rightarrow> node_row" where
  "example_row n t c =
     \<lparr>col_node_id = n, col_type = t, col_upstream_node_id = None, col_node_name = c,
      col_conninfo = c, col_slot_name = None, col_priority = 100, col_active = True\<rparr>"

text \<open>A connection to a registry that holds the given rows, and the driver before the call.\<close>

definition example_registry :: "node_row list \<Rightarrow> PGconn" where
  "example_registry rows =
     \<lparr>handle = 0,
      server = \<lparr>srv_status = CONNECTION_OK, srv_exec = (\<lambda>q. None), nodes_ok = True, nodes = rows\<rparr>\<rparr>"

definition example_driver :: libpq where
  "example_driver = \<lparr>allocated = 1, unfinished = [0], calls = []\<rparr>"

section \<open>Properties of the parameter list\<close>

lemma param_set_loop_scan:
  "param_set_loop pl p v c =
     (case scan_pl (size_pl pl) (keywords_pl pl) p c of
        (True, i) \<Rightarrow> pl\<lparr>values_pl := (values_pl pl)[i := Some v]\<rparr>
      | (False, i) \<Rightarrow>
          if i < size_pl pl
          then pl\<lparr>keywords_pl := (keywords_pl pl)[i := Some p], values_pl := (values_pl pl)[i := Some v]\<rparr>
          else pl)"
proof (induction pl p v c rule: param_set_loop.induct)
  case (1 pl p v c)
  show ?case
    using "1.IH"
    by (subst param_set_loop.simps, subst scan_pl.simps) (auto split: prod.splits)
qed

lemma param_get_loop_scan:
  "param_get_loop pl p c =
     (case scan_pl (size_pl pl) (keywords_pl pl) p c of
        (True, i) \<Rightarrow> (case values_pl pl ! i of None \<Rightarrow> None | Some v \<Rightarrow> if v \<noteq> [] then Some v else None)
      | (False, i) \<Rightarrow> None)"
proof (induction pl p c rule: param_get_loop.induct)
  case (1 pl p c)
  show ?case
    using "1.IH"
    by (subst param_get_loop.simps, subst scan_pl.simps) (auto split: prod.splits)
qed

lemma scan_pl_True:
  "scan_pl n ks p c = (True, i) \<Longrightarrow>
     c \<le> i \<and> i < n \<and> ks ! i = Some p \<and> (\<forall>j. c \<le> j \<and> j < i \<longrightarrow> ks ! j \<noteq> None \<and> ks ! j \<noteq> Some p)"
proof (induction n ks p c rule: scan_pl.induct)
  case (1 n ks p c)
  show ?case
  proof (cases "c < n \<and> ks ! c \<noteq> None \<and> ks ! c \<noteq> Some p")
    case True
    then have "scan_pl n ks p (Suc c) = (True, i)"
      using "1.prems" by (subst (asm) scan_pl.simps) simp
    then have IH: "Suc c \<le> i \<and> i < n \<and> ks ! i = Some p \<and>
        (\<forall>j. Suc c \<le> j \<and> j < i \<longrightarrow> ks ! j \<noteq> None \<and> ks ! j \<noteq> Some p)"
      using "1.IH" True by simp
    show ?thesis
    proof (intro conjI allI impI)
      fix j assume j: "c \<le> j \<and> j < i"
      show "ks ! j \<noteq> None" using j IH True by (cases "j = c") auto
      show "ks ! j \<noteq> Some p" using j IH True by (cases "j = c") auto
    qed (use IH in auto)
  next
    case False
    then show ?thesis
      using "1.prems" by (subst (asm) scan_pl.simps) (auto split: if_splits)
  qed
qed

lemma scan_pl_False:
  "scan_pl n ks p c = (False, i) \<Longrightarrow>
     c \<le> i \<and> (i < n \<longrightarrow> ks ! i = None) \<and> (c \<le> n \<longrightarrow> i \<le> n) \<and>
     (\<forall>j. c \<le> j \<and> j < i \<longrightarrow> ks ! j \<noteq> None \<and> ks ! j \<noteq> Some p)"
proof (induction n ks p c rule: scan_pl.induct)
  case (1 n ks p c)
  show ?case
  proof (cases "c < n \<and> ks ! c \<noteq> None \<and> ks ! c \<noteq> Some p")
    case True
    then have "scan_pl n ks p (Suc c) = (False, i)"
      using "1.prems" by (subst (asm) scan_pl.simps) simp
    then have IH: "Suc c \<le> i \<and> (i < n \<longrightarrow> ks ! i = None) \<and> (Suc c \<le> n \<longrightarrow> i \<le> n) \<and>
        (\<forall>j. Suc c \<le> j \<and> j < i \<longrightarrow> ks ! j \<noteq> None \<and> ks ! j \<noteq> Some p)"
      using "1.IH" True by simp
    show ?thesis
    proof (intro conjI allI impI)
      fix j assume j: "c \<le> j \<and> j < i"
      show "ks ! j \<noteq> None" using j IH True by (cases "j = c") auto
      show "ks ! j \<noteq> Some p" using j IH True by (cases "j = c") auto
    qed (use IH True in auto)
  next
    case False
    then show ?thesis
      using "1.prems" by (subst (asm) scan_pl.simps) (auto split: if_splits)
  qed
qed

lemma scan_pl_stored:
  "scan_pl n ks p c = (False, i) \<Longrightarrow> i < n \<Longrightarrow> i < length ks \<Longrightarrow>
     scan_pl n (ks[i := Some p]) p c = (True, i)"
proof (induction n ks p c rule: scan_pl.induct)
  case (1 n ks p c)
  show ?case
  proof (cases "c < n \<and> ks ! c \<noteq> None \<and> ks ! c \<noteq> Some p")
    case True
    then have s: "scan_pl n ks p (Suc c) = (False, i)"
      using "1.prems" by (subst (asm) scan_pl.simps) simp
    then have "Suc c \<le> i" using scan_pl_False by blast
    then have "(ks[i := Some p]) ! c = ks ! c" by simp
    moreover have "scan_pl n (ks[i := Some p]) p (Suc c) = (True, i)"
      using "1.IH" True s "1.prems" by simp
    ultimately show ?thesis
      using True by (subst scan_pl.simps) simp
  next
    case False
    then have "i = c"
      using "1.prems" by (subst (asm) scan_pl.simps) (auto split: if_splits)
    then show ?thesis
      using "1.prems" by (subst scan_pl.simps) simp
  qed
qed

lemma scan_pl_spare:
  assumes "scan_pl (size_pl pl) (keywords_pl pl) p 0 = (False, i)"
    and "spare_capacity pl" and "size_pl pl \<le> length (keywords_pl pl)"
  shows "i < size_pl pl"
proof (rule ccontr)
  assume "\<not> i < size_pl pl"
  with scan_pl_False[OF assms(1)] have all: "\<forall>j<size_pl pl. keywords_pl pl ! j \<noteq> None"
    by auto
  from assms(2) obtain j where "j < size_pl pl" "keywords_pl pl ! j = None"
    using assms(3) unfolding spare_capacity_def in_set_conv_nth by auto
  with all show False by blast
qed

lemma wf_keywords_split:
  assumes "param_list_wf pl"
  shows "\<exists>A m. keywords_pl pl = A @ replicate m None \<and> None \<notin> set A \<and> distinct A"
proof -
  let ?ks = "keywords_pl pl"
  let ?A = "takeWhile (\<lambda>k. k \<noteq> None) ?ks"
  let ?B = "dropWhile (\<lambda>k. k \<noteq> None) ?ks"
  have B: "?B = replicate (length ?B) None"
    using assms unfolding param_list_wf_def list_all_iff
    by (metis (mono_tags, lifting) replicate_length_same)
  have "?ks = ?A @ replicate (length ?B) None"
    using B takeWhile_dropWhile_id[of "\<lambda>k. k \<noteq> None" ?ks] by simp
  moreover have "None \<notin> set ?A" using set_takeWhileD by fastforce
  moreover have "distinct ?A" using assms unfolding param_list_wf_def by simp
  ultimately show ?thesis by blast
qed

lemma count_list_distinct:
  "distinct xs \<Longrightarrow> x \<in> set xs \<Longrightarrow> count_list xs x = 1"
  by (induction xs) auto

lemma count_found:
  assumes "param_list_wf pl" and "i < length (keywords_pl pl)" and "keywords_pl pl ! i = Some k"
  shows "count_list (keywords_pl pl) (Some k) = 1"
proof -
  obtain A m where s: "keywords_pl pl = A @ replicate m None" "None \<notin> set A" "distinct A"
    using wf_keywords_split[OF assms(1)] by blast
  have "Some k \<in> set (keywords_pl pl)" using assms(2,3) by (metis nth_mem)
  then have "Some k \<in> set A" using s(1) by auto
  then have "count_list A (Some k) = 1" using s(3) by (simp add: count_list_distinct)
  moreover have "count_list (replicate m None) (Some k) = 0"
    by (simp add: count_list_0_iff)
  ultimately show ?thesis using s(1) by simp
qed

lemma count_stored:
  assumes "param_list_wf pl" and "i < length (keywords_pl pl)" and "keywords_pl pl ! i = None"
    and "\<forall>j<i. keywords_pl pl ! j \<noteq> Some k"
  shows "count_list ((keywords_pl pl)[i := Some k]) (Some k) = 1"
proof -
  let ?ks = "keywords_pl pl"
  obtain A m where s: "?ks = A @ replicate m None" "None \<notin> set A" "distinct A"
    using wf_keywords_split[OF assms(1)] by blast
  have len: "length A \<le> i"
  proof (rule ccontr)
    assume "\<not> length A \<le> i"
    then have "?ks ! i \<in> set A" using s(1) by (simp add: nth_append)
    then show False using assms(3) s(2) by simp
  qed
  have "Some k \<notin> set (take i ?ks)"
    using assms(4) assms(2) by (auto simp: in_set_conv_nth)
  then have c1: "count_list (take i ?ks) (Some k) = 0" by (simp add: count_list_0_iff)
  have "set (drop (Suc i) ?ks) \<subseteq> {None}"
    using s(1) len by (auto dest: in_set_dropD)
  then have c2: "count_list (drop (Suc i) ?ks) (Some k) = 0"
    by (auto simp: count_list_0_iff)
  have "?ks[i := Some k] = take i ?ks @ Some k # drop (Suc i) ?ks"
    using assms(2) by (rule upd_conv_take_nth_drop)
  then show ?thesis using c1 c2 by simp
qed

lemma wf_first_free:
  assumes "param_list_wf pl" and "i < length (keywords_pl pl)" and "keywords_pl pl ! i = None"
    and "\<forall>j<i. keywords_pl pl ! j \<noteq> None"
  shows "\<exists>m. keywords_pl pl = take i (keywords_pl pl) @ replicate (Suc m) None \<and>
             None \<notin> set (take i (keywords_pl pl)) \<and> distinct (take i (keywords_pl pl))"
proof -
  let ?ks = "keywords_pl pl"
  obtain A m where s: "?ks = A @ replicate m None" "None \<notin> set A" "distinct A"
    using wf_keywords_split[OF assms(1)] by blast
  have "length A \<le> i"
  proof (rule ccontr)
    assume "\<not> length A \<le> i"
    then have "?ks ! i \<in> set A" using s(1) by (simp add: nth_append)
    then show False using assms(3) s(2) by simp
  qed
  moreover have "i \<le> length A"
  proof (rule ccontr)
    assume "\<not> i \<le> length A"
    then have "length A < i" by simp
    moreover have "length A < length ?ks" using \<open>length A < i\<close> assms(2) by simp
    then have "0 < m" using s(1) by simp
    have "(A @ replicate m None) ! (length A + 0) = replicate m None ! 0"
      by (rule nth_append_length_plus)
    then have "?ks ! length A = None" using s(1) \<open>0 < m\<close> by simp
    ultimately show False using assms(4) by blast
  qed
  ultimately have i: "i = length A" by simp
  then have A: "take i ?ks = A" using s(1) by simp
  have "m \<noteq> 0" using assms(2) i s(1) by (cases m) (auto simp: )
  then obtain m' where "m = Suc m'" by (cases m) auto
  then show ?thesis using s A by auto
qed

lemma param_set_wf:
  assumes "param_list_wf pl"
  shows "param_list_wf (param_set pl k v)"
proof (cases "scan_pl (size_pl pl) (keywords_pl pl) k 0")
  case (Pair b i)
  show ?thesis
  proof (cases b)
    case True
    then show ?thesis
      using assms Pair by (simp add: param_set_def param_set_loop_scan param_list_wf_def)
  next
    case False
    from Pair False have "scan_pl (size_pl pl) (keywords_pl pl) k 0 = (False, i)" by simp
    note s = scan_pl_False[OF this]
    show ?thesis
    proof (cases "i < size_pl pl")
      case lt: True
      let ?ks = "keywords_pl pl"
      have len: "i < length ?ks" using lt assms by (simp add: param_list_wf_def)
      obtain m where m: "?ks = take i ?ks @ replicate (Suc m) None"
        "None \<notin> set (take i ?ks)" "distinct (take i ?ks)"
        using wf_first_free[OF assms len] s lt by auto
      have notin: "Some k \<notin> set (take i ?ks)"
        using s len by (auto simp: in_set_conv_nth)
      have "?ks[i := Some k] = take i ?ks @ Some k # drop (Suc i) ?ks"
        using len by (rule upd_conv_take_nth_drop)
      moreover have "drop (Suc i) ?ks = replicate m None"
      proof -
        have "drop (Suc i) ?ks = drop (Suc i) (take i ?ks @ replicate (Suc m) None)"
          using m(1) by simp
        also have "\<dots> = replicate m None" using len by simp
        finally show ?thesis .
      qed
      ultimately have upd: "?ks[i := Some k] = (take i ?ks @ [Some k]) @ replicate m None"
        by simp
      have P: "\<forall>x \<in> set (take i ?ks @ [Some k]). x \<noteq> None"
      proof
        fix x assume "x \<in> set (take i ?ks @ [Some k])"
        then have "x = Some k \<or> x \<in> set (take i ?ks)" by auto
        then show "x \<noteq> None" using m(2) by (metis option.distinct(1))
      qed
      have tw: "takeWhile (\<lambda>k. k \<noteq> None) (?ks[i := Some k]) = take i ?ks @ [Some k]"
        unfolding upd using P by (cases m) simp_all
      have dw: "dropWhile (\<lambda>k. k \<noteq> None) (?ks[i := Some k]) = replicate m None"
        unfolding upd using P by (cases m) simp_all
      have last: "(?ks[i := Some k]) ! size_pl pl = None"
        using lt assms by (simp add: param_list_wf_def)
      have res: "param_set pl k v =
          pl\<lparr>keywords_pl := ?ks[i := Some k], values_pl := (values_pl pl)[i := Some v]\<rparr>"
        using Pair False lt by (simp add: param_set_def param_set_loop_scan)
      show ?thesis
        unfolding res param_list_wf_def
        using assms tw dw last m(3) notin
        by (simp add: param_list_wf_def list_all_iff)
    next
      case False
      then show ?thesis
        using assms Pair \<open>\<not> b\<close> by (simp add: param_set_def param_set_loop_scan)
    qed
  qed
qed

lemma empty_param_list_wf:
  "param_list_wf \<lparr>size_pl = n, keywords_pl = replicate (n + 1) None,
                   values_pl = replicate (n + 1) None\<rparr>"
  unfolding param_list_wf_def by (simp add: list_all_iff nth_Cons')

lemma fold_param_set_wf:
  "param_list_wf pl \<Longrightarrow>
   param_list_wf (fold (\<lambda>def pl. case val def of None \<Rightarrow> pl
                    | Some v \<Rightarrow> if v \<noteq> [] then param_set pl (keyword def) v else pl) ds pl)"
proof (induction ds arbitrary: pl)
  case Nil
  then show ?case by simp
next
  case (Cons d ds)
  have "param_list_wf (case val d of None \<Rightarrow> pl
          | Some v \<Rightarrow> if v \<noteq> [] then param_set pl (keyword d) v else pl)"
    using Cons.prems by (cases "val d") (simp_all add: param_set_wf)
  from Cons.IH[OF this] show ?case by simp
qed

lemma initialize_conninfo_params_wf:
  "param_list_wf (initialize_conninfo_params defs set_defaults)"
  unfolding initialize_conninfo_params_def Let_def
  using empty_param_list_wf[of "length defs"] fold_param_set_wf
  by (cases set_defaults) simp_all

lemma set_twice_get_count:
  assumes "param_list_wf pl" and "spare_capacity pl"
  shows "param_get (param_set (param_set pl k v1) k v2) k = (if v2 = [] then None else Some v2)"
    and "count_list (keywords_pl (param_set (param_set pl k v1) k v2)) (Some k) = 1"
proof -
  let ?n = "size_pl pl" and ?ks = "keywords_pl pl"
  have lens: "length ?ks = ?n + 1" "length (values_pl pl) = ?n + 1"
    using assms(1) by (simp_all add: param_list_wf_def)
  obtain b i where sc: "scan_pl ?n ?ks k 0 = (b, i)" by fastforce
  have "param_get (param_set (param_set pl k v1) k v2) k = (if v2 = [] then None else Some v2) \<and>
        count_list (keywords_pl (param_set (param_set pl k v1) k v2)) (Some k) = 1"
  proof (cases b)
    case True
    then have "scan_pl ?n ?ks k 0 = (True, i)" using sc by simp
    note t = scan_pl_True[OF this]
    have i: "i < ?n" "?ks ! i = Some k" using t by simp_all
    have "count_list ?ks (Some k) = 1"
      using count_found[OF assms(1) _ i(2)] i(1) lens by simp
    then show ?thesis
      using sc True i lens
      by (simp add: param_set_def param_get_def param_set_loop_scan param_get_loop_scan)
  next
    case False
    then have scF: "scan_pl ?n ?ks k 0 = (False, i)" using sc by simp
    have i: "i < ?n" using scan_pl_spare[OF scF assms(2)] lens by simp
    have f: "?ks ! i = None" "\<forall>j<i. ?ks ! j \<noteq> Some k"
      using scan_pl_False[OF scF] i by simp_all
    have st: "scan_pl ?n (?ks[i := Some k]) k 0 = (True, i)"
      using scan_pl_stored[OF scF i] lens i by simp
    have "count_list (?ks[i := Some k]) (Some k) = 1"
      using count_stored[OF assms(1) _ f] i lens by simp
    then show ?thesis
      using sc False i lens st
      by (simp add: param_set_def param_get_def param_set_loop_scan param_get_loop_scan)
  qed
  then show "param_get (param_set (param_set pl k v1) k v2) k = (if v2 = [] then None else Some v2)"
    and "count_list (keywords_pl (param_set (param_set pl k v1) k v2)) (Some k) = 1"
    by simp_all
qed

lemma param_get_param_set_empty:
  assumes "param_list_wf pl"
  shows "param_get (param_set pl k []) k = None"
proof -
  let ?n = "size_pl pl" and ?ks = "keywords_pl pl"
  have lens: "length ?ks = ?n + 1" "length (values_pl pl) = ?n + 1"
    using assms by (simp_all add: param_list_wf_def)
  obtain b i where sc: "scan_pl ?n ?ks k 0 = (b, i)" by fastforce
  show ?thesis
  proof (cases b)
    case True
    then have "scan_pl ?n ?ks k 0 = (True, i)" using sc by simp
    note t = scan_pl_True[OF this]
    show ?thesis
      using sc True t lens
      by (simp add: param_set_def param_get_def param_set_loop_scan param_get_loop_scan)
  next
    case False
    then have scF: "scan_pl ?n ?ks k 0 = (False, i)" using sc by simp
    show ?thesis
    proof (cases "i < ?n")
      case True
      have "scan_pl ?n (?ks[i := Some k]) k 0 = (True, i)"
        using scan_pl_stored[OF scF True] lens True by simp
      then show ?thesis
        using scF True lens
        by (simp add: param_set_def param_get_def param_set_loop_scan param_get_loop_scan)
    next
      case False
      then show ?thesis
        using scF
        by (simp add: param_set_def param_get_def param_set_loop_scan param_get_loop_scan)
    qed
  qed
qed

lemma param_get_unset:
  assumes "param_list_wf pl" and "Some k \<notin> set (keywords_pl pl)"
  shows "param_get pl k = None"
proof -
  obtain b i where sc: "scan_pl (size_pl pl) (keywords_pl pl) k 0 = (b, i)" by fastforce
  have "\<not> b"
  proof
    assume b
    then have "scan_pl (size_pl pl) (keywords_pl pl) k 0 = (True, i)" using sc by simp
    note t = scan_pl_True[OF this]
    have "i < length (keywords_pl pl)" using t assms(1) by (simp add: param_list_wf_def)
    then have "keywords_pl pl ! i \<in> set (keywords_pl pl)" by (rule nth_mem)
    then show False using t assms(2) by simp
  qed
  then show ?thesis using sc by (simp add: param_get_def param_get_loop_scan)
qed

lemma param_set_empty_stored:
  assumes "param_list_wf pl" and "Some k \<notin> set (keywords_pl pl)" and "spare_capacity pl"
  shows "\<exists>i<size_pl pl. keywords_pl (param_set pl k []) ! i = Some k \<and>
                        values_pl (param_set pl k []) ! i = Some []"
proof -
  let ?n = "size_pl pl" and ?ks = "keywords_pl pl"
  have lens: "length ?ks = ?n + 1" "length (values_pl pl) = ?n + 1"
    using assms(1) by (simp_all add: param_list_wf_def)
  obtain b i where sc: "scan_pl ?n ?ks k 0 = (b, i)" by fastforce
  have "\<not> b"
  proof
    assume b
    then have "scan_pl ?n ?ks k 0 = (True, i)" using sc by simp
    note t = scan_pl_True[OF this]
    have "i < length ?ks" using t lens by simp
    then have "?ks ! i \<in> set ?ks" by (rule nth_mem)
    then show False using t assms(2) by simp
  qed
  then have scF: "scan_pl ?n ?ks k 0 = (False, i)" using sc by simp
  have i: "i < ?n" using scan_pl_spare[OF scF assms(3)] lens by simp
  have "keywords_pl (param_set pl k []) ! i = Some k \<and> values_pl (param_set pl k []) ! i = Some []"
    using scF i lens by (simp add: param_set_def param_set_loop_scan)
  then show ?thesis using i by blast
qed

text \<open>
  C5, as amended. For a list as the module builds them, with a free slot: after
  \<open>param_set\<close> of \<open>k\<close> to \<open>v1\<close> and then to \<open>v2\<close>, \<open>param_get\<close> of \<open>k\<close> returns \<open>v2\<close> when
  \<open>v2\<close> is not the empty string and NULL when it is, and the keyword array holds \<open>k\<close>
  exactly once.
\<close>

theorem param_set_twice:
  assumes "param_list_wf pl" and "spare_capacity pl"
  shows "param_get (param_set (param_set pl k v1) k v2) k = (if v2 = [] then None else Some v2) \<and>
         count_list (keywords_pl (param_set (param_set pl k v1) k v2)) (Some k) = 1"
  using set_twice_get_count[OF assms] by simp

theorem param_set_twice_witness:
  "param_list_wf \<lparr>size_pl = 2, keywords_pl = [Some ''host'', None, None],
                   values_pl = [Some ''db1'', None, None]\<rparr> \<and>
   spare_capacity \<lparr>size_pl = 2, keywords_pl = [Some ''host'', None, None],
                   values_pl = [Some ''db1'', None, None]\<rparr> \<and>
   param_get (param_set (param_set \<lparr>size_pl = 2, keywords_pl = [Some ''host'', None, None],
                   values_pl = [Some ''db1'', None, None]\<rparr> ''port'' ''5432'') ''port'' ''5433'') ''port''
     = Some ''5433'' \<and>
   count_list (keywords_pl (param_set (param_set \<lparr>size_pl = 2, keywords_pl = [Some ''host'', None, None],
                   values_pl = [Some ''db1'', None, None]\<rparr> ''port'' ''5432'') ''port'' ''5433''))
      (Some ''port'') = 1"
proof -
  let ?pl = "\<lparr>size_pl = 2, keywords_pl = [Some ''host'', None, None],
              values_pl = [Some ''db1'', None, None]\<rparr>"
  have w: "param_list_wf ?pl" by (simp add: param_list_wf_def)
  have s: "spare_capacity ?pl" by (simp add: spare_capacity_def)
  show ?thesis
    using w s param_set_twice[OF w s, of "''port''" "''5432''" "''5433''"] by simp
qed

text \<open>
  C5 as stated fails when the second value is the empty string: on an empty list with two
  usable slots, setting \<^verbatim>\<open>host\<close> to \<^verbatim>\<open>db1\<close> and then to the empty string, \<open>param_get\<close> does
  not return the empty string (it returns NULL).
\<close>

theorem param_get_after_empty_set_counterexample:
  "param_list_wf \<lparr>size_pl = 2, keywords_pl = [None, None, None], values_pl = [None, None, None]\<rparr> \<and>
   spare_capacity \<lparr>size_pl = 2, keywords_pl = [None, None, None], values_pl = [None, None, None]\<rparr> \<and>
   param_get (param_set (param_set
       \<lparr>size_pl = 2, keywords_pl = [None, None, None], values_pl = [None, None, None]\<rparr>
       ''host'' ''db1'') ''host'' []) ''host'' \<noteq> Some []"
proof -
  let ?pl = "\<lparr>size_pl = 2, keywords_pl = [None, None, None], values_pl = [None, None, None]\<rparr>"
  have w: "param_list_wf ?pl" by (simp add: param_list_wf_def)
  have s: "spare_capacity ?pl" by (simp add: spare_capacity_def)
  have "param_get (param_set (param_set ?pl ''host'' ''db1'') ''host'' []) ''host'' = None"
    using param_get_param_set_empty[OF param_set_wf[OF w]] by simp
  then show ?thesis using w s by simp
qed

text \<open>
  C6. For a list as the module builds them and a keyword \<open>k\<close>: \<open>param_get\<close> returns NULL
  when \<open>k\<close> is in no slot, and it returns NULL after \<open>k\<close> was set to the empty string; yet
  when \<open>k\<close> was in no slot and a slot was free, setting it to the empty string leaves a
  slot that holds \<open>k\<close> with the empty string as its value, so the two lists differ.
\<close>

theorem param_get_absent_or_empty:
  assumes "param_list_wf pl"
  shows "(Some k \<notin> set (keywords_pl pl) \<longrightarrow> param_get pl k = None) \<and>
         param_get (param_set pl k []) k = None \<and>
         (Some k \<notin> set (keywords_pl pl) \<and> spare_capacity pl \<longrightarrow>
            (\<exists>i<size_pl pl. keywords_pl (param_set pl k []) ! i = Some k \<and>
                             values_pl (param_set pl k []) ! i = Some []))"
  using param_get_unset[OF assms] param_get_param_set_empty[OF assms]
    param_set_empty_stored[OF assms] by blast

theorem param_get_absent_or_empty_witness:
  "param_list_wf \<lparr>size_pl = 2, keywords_pl = [Some ''host'', None, None],
                   values_pl = [Some ''db1'', None, None]\<rparr> \<and>
   Some ''port'' \<notin> set [Some ''host'', None, None] \<and>
   spare_capacity \<lparr>size_pl = 2, keywords_pl = [Some ''host'', None, None],
                   values_pl = [Some ''db1'', None, None]\<rparr> \<and>
   param_get \<lparr>size_pl = 2, keywords_pl = [Some ''host'', None, None],
               values_pl = [Some ''db1'', None, None]\<rparr> ''port'' = None \<and>
   param_get (param_set \<lparr>size_pl = 2, keywords_pl = [Some ''host'', None, None],
               values_pl = [Some ''db1'', None, None]\<rparr> ''port'' []) ''port'' = None \<and>
   (\<exists>i<2. keywords_pl (param_set \<lparr>size_pl = 2, keywords_pl = [Some ''host'', None, None],
               values_pl = [Some ''db1'', None, None]\<rparr> ''port'' []) ! i = Some ''port'' \<and>
           values_pl (param_set \<lparr>size_pl = 2, keywords_pl = [Some ''host'', None, None],
               values_pl = [Some ''db1'', None, None]\<rparr> ''port'' []) ! i = Some [])"
proof -
  let ?pl = "\<lparr>size_pl = 2, keywords_pl = [Some ''host'', None, None],
              values_pl = [Some ''db1'', None, None]\<rparr>"
  have w: "param_list_wf ?pl" by (simp add: param_list_wf_def)
  have s: "spare_capacity ?pl" by (simp add: spare_capacity_def)
  have n: "Some ''port'' \<notin> set [Some ''host'', None, None]" by simp
  show ?thesis
    using w s n param_get_absent_or_empty[OF w, of "''port''"] by simp
qed

text \<open>
  C7. When the driver's parser rejects the string with a diagnostic,
  \<open>parse_conninfo_string\<close> returns false and leaves the parameter list alone, but the
  caller's \<^verbatim>\<open>errmsg\<close> is what it was before the call: the diagnostic does not reach it.
\<close>

theorem parse_conninfo_string_errmsg:
  assumes "PQconninfoParse conninfo_str = Inl diagnostic"
  shows "parse_conninfo_string PQconninfoParse conninfo_str param_list errmsg ignore_application_name
           = (False, param_list, errmsg)"
  using assms by (simp add: parse_conninfo_string_def)

theorem parse_conninfo_string_errmsg_witness:
  "parse_conninfo_string
     (\<lambda>s. if s = ''host'' then Inl ''missing = after host in connection info string'' else Inr [])
     ''host'' \<lparr>size_pl = 1, keywords_pl = [None, None], values_pl = [None, None]\<rparr> None True
   = (False, \<lparr>size_pl = 1, keywords_pl = [None, None], values_pl = [None, None]\<rparr>, None)"
  using parse_conninfo_string_errmsg
    [of "\<lambda>s. if s = ''host'' then Inl ''missing = after host in connection info string'' else Inr []"
        "''host''" "''missing = after host in connection info string''"
        "\<lparr>size_pl = 1, keywords_pl = [None, None], values_pl = [None, None]\<rparr>" None True]
  by simp

lemma stored_upstream_insert:
  assumes "nodes_ok (server conn)" and "col_node_id row \<notin> col_node_id ` set (nodes (server conn))"
  shows "stored_upstream (snd (insert_node_row conn row)) (col_node_id row) =
           [col_upstream_node_id row]"
proof -
  have "\<forall>r \<in> set (nodes (server conn)). col_node_id r \<noteq> col_node_id row"
    using assms(2) by (metis imageI)
  then have "filter (\<lambda>r. col_node_id r = col_node_id row) (nodes (server conn)) = []"
    by (simp add: filter_empty_conv)
  then show ?thesis
    using assms by (simp add: insert_node_row_def stored_upstream_def)
qed

lemma upstream_map_replace:
  "map col_upstream_node_id (filter (\<lambda>r. col_node_id r = col_node_id row)
       (map (\<lambda>r. if col_node_id r = col_node_id row then row else r) ns))
   = map (\<lambda>_. col_upstream_node_id row) (filter (\<lambda>r. col_node_id r = col_node_id row) ns)"
  by (induction ns) auto

lemma stored_upstream_update:
  assumes "nodes_ok (server conn)"
  shows "stored_upstream (snd (update_node_row conn row)) (col_node_id row) =
           map (\<lambda>_. col_upstream_node_id row) (stored_upstream conn (col_node_id row))"
  using assms upstream_map_replace[of row "nodes (server conn)"]
  by (simp add: update_node_row_def stored_upstream_def comp_def)

lemma insert_node_row_status:
  "fst (insert_node_row conn row) = PGRES_COMMAND_OK \<longleftrightarrow>
     nodes_ok (server conn) \<and> col_node_id row \<notin> col_node_id ` set (nodes (server conn))"
  by (simp add: insert_node_row_def)

lemma update_node_row_status:
  "fst (update_node_row conn row) = PGRES_COMMAND_OK \<longleftrightarrow> nodes_ok (server conn)"
  by (simp add: update_node_row_def)

lemma create_node_record_row:
  assumes "statement_as_meant h ni"
  shows "create_node_record h conn action ni =
     (let r = insert_node_row conn
        \<lparr>col_node_id = node_id ni,
         col_type = get_node_type_string (type ni),
         col_upstream_node_id =
           (if upstream_node_id ni = NO_UPSTREAM_NODE h
            then if type ni = STANDBY then Some (get_master_node_id h conn) else None
            else Some (upstream_node_id ni)),
         col_node_name = node_name ni,
         col_conninfo = conninfo ni,
         col_slot_name = (if slot_name ni \<noteq> [] then Some (slot_name ni) else None),
         col_priority = priority ni,
         col_active = active ni\<rparr>
      in Inr (fst r = PGRES_COMMAND_OK, snd r))"
  using assms by (simp add: create_node_record_def Let_def split: prod.splits)

lemma update_node_record_row:
  assumes "statement_as_meant h ni"
  shows "update_node_record h conn action ni =
     (let r = update_node_row conn
        \<lparr>col_node_id = node_id ni,
         col_type = get_node_type_string (type ni),
         col_upstream_node_id =
           (if upstream_node_id ni = NO_UPSTREAM_NODE h
            then if type ni = STANDBY then Some (get_master_node_id h conn) else None
            else Some (upstream_node_id ni)),
         col_node_name = node_name ni,
         col_conninfo = conninfo ni,
         col_slot_name = (if slot_name ni \<noteq> [] then Some (slot_name ni) else None),
         col_priority = priority ni,
         col_active = active ni\<rparr>
      in Inr (fst r = PGRES_COMMAND_OK, snd r))"
  using assms by (simp add: update_node_record_def Let_def split: prod.splits)

lemma create_node_record_unescaped:
  "\<not> statement_as_meant h ni \<Longrightarrow> create_node_record h conn action ni = Inl Unescaped_statement"
  by (simp add: create_node_record_def Let_def)

lemma update_node_record_unescaped:
  "\<not> statement_as_meant h ni \<Longrightarrow> update_node_record h conn action ni = Inl Unescaped_statement"
  by (simp add: update_node_record_def Let_def)

lemma create_stored:
  assumes "statement_as_meant h ni"
  shows "\<exists>ok conn1. create_node_record h conn action ni = Inr (ok, conn1) \<and>
     (ok \<longleftrightarrow> nodes_ok (server conn) \<and> node_id ni \<notin> col_node_id ` set (nodes (server conn))) \<and>
     (ok \<longrightarrow> stored_upstream conn1 (node_id ni) =
       [if upstream_node_id ni = NO_UPSTREAM_NODE h
        then if type ni = STANDBY then Some (get_master_node_id h conn) else None
        else Some (upstream_node_id ni)])"
proof -
  let ?row = "\<lparr>col_node_id = node_id ni,
         col_type = get_node_type_string (type ni),
         col_upstream_node_id =
           (if upstream_node_id ni = NO_UPSTREAM_NODE h
            then if type ni = STANDBY then Some (get_master_node_id h conn) else None
            else Some (upstream_node_id ni)),
         col_node_name = node_name ni,
         col_conninfo = conninfo ni,
         col_slot_name = (if slot_name ni \<noteq> [] then Some (slot_name ni) else None),
         col_priority = priority ni,
         col_active = active ni\<rparr>"
  have r: "create_node_record h conn action ni =
      Inr (fst (insert_node_row conn ?row) = PGRES_COMMAND_OK, snd (insert_node_row conn ?row))"
    unfolding create_node_record_row[OF assms] Let_def ..
  have s: "fst (insert_node_row conn ?row) = PGRES_COMMAND_OK \<longleftrightarrow>
      nodes_ok (server conn) \<and> node_id ni \<notin> col_node_id ` set (nodes (server conn))"
    unfolding insert_node_row_status by simp
  have u: "fst (insert_node_row conn ?row) = PGRES_COMMAND_OK \<longrightarrow>
      stored_upstream (snd (insert_node_row conn ?row)) (node_id ni) =
       [if upstream_node_id ni = NO_UPSTREAM_NODE h
        then if type ni = STANDBY then Some (get_master_node_id h conn) else None
        else Some (upstream_node_id ni)]"
  proof
    assume "fst (insert_node_row conn ?row) = PGRES_COMMAND_OK"
    then have ok: "nodes_ok (server conn)"
      "col_node_id ?row \<notin> col_node_id ` set (nodes (server conn))"
      unfolding insert_node_row_status by simp_all
    from stored_upstream_insert[OF ok] show "stored_upstream (snd (insert_node_row conn ?row)) (node_id ni) =
       [if upstream_node_id ni = NO_UPSTREAM_NODE h
        then if type ni = STANDBY then Some (get_master_node_id h conn) else None
        else Some (upstream_node_id ni)]" by simp
  qed
  from r s u show ?thesis by blast
qed

lemma update_stored:
  assumes "statement_as_meant h ni"
  shows "\<exists>ok conn1. update_node_record h conn action ni = Inr (ok, conn1) \<and>
     (ok \<longleftrightarrow> nodes_ok (server conn)) \<and>
     (ok \<longrightarrow> stored_upstream conn1 (node_id ni) =
       replicate (length (stored_upstream conn (node_id ni)))
        (if upstream_node_id ni = NO_UPSTREAM_NODE h
         then if type ni = STANDBY then Some (get_master_node_id h conn) else None
         else Some (upstream_node_id ni)))"
proof -
  let ?row = "\<lparr>col_node_id = node_id ni,
         col_type = get_node_type_string (type ni),
         col_upstream_node_id =
           (if upstream_node_id ni = NO_UPSTREAM_NODE h
            then if type ni = STANDBY then Some (get_master_node_id h conn) else None
            else Some (upstream_node_id ni)),
         col_node_name = node_name ni,
         col_conninfo = conninfo ni,
         col_slot_name = (if slot_name ni \<noteq> [] then Some (slot_name ni) else None),
         col_priority = priority ni,
         col_active = active ni\<rparr>"
  have r: "update_node_record h conn action ni =
      Inr (fst (update_node_row conn ?row) = PGRES_COMMAND_OK, snd (update_node_row conn ?row))"
    unfolding update_node_record_row[OF assms] Let_def ..
  have s: "fst (update_node_row conn ?row) = PGRES_COMMAND_OK \<longleftrightarrow> nodes_ok (server conn)"
    by (rule update_node_row_status)
  have u: "fst (update_node_row conn ?row) = PGRES_COMMAND_OK \<longrightarrow>
      stored_upstream (snd (update_node_row conn ?row)) (node_id ni) =
       replicate (length (stored_upstream conn (node_id ni)))
        (if upstream_node_id ni = NO_UPSTREAM_NODE h
         then if type ni = STANDBY then Some (get_master_node_id h conn) else None
         else Some (upstream_node_id ni))"
  proof
    assume "fst (update_node_row conn ?row) = PGRES_COMMAND_OK"
    then have ok: "nodes_ok (server conn)" unfolding update_node_row_status .
    from stored_upstream_update[OF ok, of ?row]
    show "stored_upstream (snd (update_node_row conn ?row)) (node_id ni) =
       replicate (length (stored_upstream conn (node_id ni)))
        (if upstream_node_id ni = NO_UPSTREAM_NODE h
         then if type ni = STANDBY then Some (get_master_node_id h conn) else None
         else Some (upstream_node_id ni))" by (simp add: map_replicate_const)
  qed
  from r s u show ?thesis by blast
qed

text \<open>
  C8. For a node record whose \<^verbatim>\<open>node_name\<close>, \<^verbatim>\<open>conninfo\<close> and \<^verbatim>\<open>slot_name\<close> hold no quote and no
  backslash and fit their buffers, so that the text sent is the statement meant: when
  \<open>create_node_record\<close> succeeds, the relation holds one row for the node's id, whose
  upstream id is what \<open>get_master_node_id\<close> returns on the same connection for a standby
  whose \<^verbatim>\<open>upstream_node_id\<close> is \<^verbatim>\<open>NO_UPSTREAM_NODE\<close>, NULL for any other type with that
  sentinel, and the given id otherwise; when \<open>update_node_record\<close> succeeds, every row
  with the node's id has the upstream id chosen by the same rule.
\<close>

theorem upstream_node_id_resolution:
  assumes "statement_as_meant h ni"
  shows "\<exists>ok1 conn1 ok2 conn2.
     create_node_record h conn action ni = Inr (ok1, conn1) \<and>
     (ok1 \<longrightarrow> stored_upstream conn1 (node_id ni) =
        [if upstream_node_id ni = NO_UPSTREAM_NODE h
         then if type ni = STANDBY then Some (get_master_node_id h conn) else None
         else Some (upstream_node_id ni)]) \<and>
     update_node_record h conn action ni = Inr (ok2, conn2) \<and>
     (ok2 \<longrightarrow> stored_upstream conn2 (node_id ni) =
        replicate (length (stored_upstream conn (node_id ni)))
          (if upstream_node_id ni = NO_UPSTREAM_NODE h
           then if type ni = STANDBY then Some (get_master_node_id h conn) else None
           else Some (upstream_node_id ni)))"
  using create_stored[OF assms, of conn action] update_stored[OF assms, of conn action]
  by blast

theorem upstream_node_id_resolution_witness:
  "let h = \<lparr>MAXLEN = 1024, MAXCONNINFO = 1024, NODE_NOT_FOUND = - 1, NO_UPSTREAM_NODE = - 1\<rparr>;
       c = \<lparr>handle = 0, server = \<lparr>srv_status = CONNECTION_OK, srv_exec = (\<lambda>q. None),
              nodes_ok = True,
              nodes = [\<lparr>col_node_id = 1, col_type = ''master'', col_upstream_node_id = None,
                        col_node_name = ''n1'', col_conninfo = ''host=n1'', col_slot_name = None,
                        col_priority = 100, col_active = True\<rparr>,
                       \<lparr>col_node_id = 2, col_type = ''standby'', col_upstream_node_id = Some 7,
                        col_node_name = ''n2'', col_conninfo = ''host=n2'', col_slot_name = None,
                        col_priority = 100, col_active = True\<rparr>]\<rparr>\<rparr>;
       n3 = \<lparr>node_id = 3, type = STANDBY, upstream_node_id = - 1, node_name = ''n3'',
             conninfo = ''host=n3'', slot_name = [], priority = 100, active = True,
             is_ready = False, is_visible = False\<rparr>;
       n2 = \<lparr>node_id = 2, type = STANDBY, upstream_node_id = - 1, node_name = ''n2'',
             conninfo = ''host=n2'', slot_name = [], priority = 100, active = True,
             is_ready = False, is_visible = False\<rparr>
   in statement_as_meant h n3 \<and> statement_as_meant h n2 \<and>
      (\<exists>conn1. create_node_record h c None n3 = Inr (True, conn1) \<and>
                stored_upstream conn1 3 = [Some 1]) \<and>
      stored_upstream c 2 = [Some 7] \<and>
      (\<exists>conn2. update_node_record h c None n2 = Inr (True, conn2) \<and>
                stored_upstream conn2 2 = [Some 1])"
proof -
  let ?h = "\<lparr>MAXLEN = 1024, MAXCONNINFO = 1024, NODE_NOT_FOUND = - 1, NO_UPSTREAM_NODE = - 1\<rparr>"
  let ?c = "\<lparr>handle = 0, server = \<lparr>srv_status = CONNECTION_OK, srv_exec = (\<lambda>q. None),
              nodes_ok = True,
              nodes = [\<lparr>col_node_id = 1, col_type = ''master'', col_upstream_node_id = None,
                        col_node_name = ''n1'', col_conninfo = ''host=n1'', col_slot_name = None,
                        col_priority = 100, col_active = True\<rparr>,
                       \<lparr>col_node_id = 2, col_type = ''standby'', col_upstream_node_id = Some 7,
                        col_node_name = ''n2'', col_conninfo = ''host=n2'', col_slot_name = None,
                        col_priority = 100, col_active = True\<rparr>]\<rparr>\<rparr>"
  let ?n3 = "\<lparr>node_id = 3, type = STANDBY, upstream_node_id = - 1, node_name = ''n3'',
             conninfo = ''host=n3'', slot_name = [], priority = 100, active = True,
             is_ready = False, is_visible = False\<rparr>"
  let ?n2 = "\<lparr>node_id = 2, type = STANDBY, upstream_node_id = - 1, node_name = ''n2'',
             conninfo = ''host=n2'', slot_name = [], priority = 100, active = True,
             is_ready = False, is_visible = False\<rparr>"
  have m: "get_master_node_id ?h ?c = 1" by (simp add: get_master_node_id_def)
  have s: "stored_upstream ?c 2 = [Some 7]" by (simp add: stored_upstream_def)
  have a3: "statement_as_meant ?h ?n3" by (simp add: statement_as_meant_def sql_plain_def)
  have a2: "statement_as_meant ?h ?n2" by (simp add: statement_as_meant_def sql_plain_def)
  have cT: "\<exists>conn1. create_node_record ?h ?c None ?n3 = Inr (True, conn1)"
    using a3 by (simp add: create_node_record_def insert_node_row_def)
  have uT: "\<exists>conn2. update_node_record ?h ?c None ?n2 = Inr (True, conn2)"
    using a2 by (simp add: update_node_record_def update_node_row_def)
  from upstream_node_id_resolution[OF a3, of ?c None] cT
  have c: "\<exists>conn1. create_node_record ?h ?c None ?n3 = Inr (True, conn1) \<and>
                stored_upstream conn1 3 = [Some 1]"
    using m by auto
  from upstream_node_id_resolution[OF a2, of ?c None] uT
  have u: "\<exists>conn2. update_node_record ?h ?c None ?n2 = Inr (True, conn2) \<and>
                stored_upstream conn2 2 = [Some 1]"
    using m s by auto
  show ?thesis unfolding Let_def using a3 a2 c s u by blast
qed

section \<open>Properties of get\_master\_connection\<close>

lemma establish_db_connection_False:
  "establish_db_connection h cluster ci False st =
     Inr (\<lparr>handle = allocated st,
           server = cluster (take (MAXLEN h) ci @ '' fallback_application_name='repmgr'' @ [CHR 0x27])\<rparr>,
          st\<lparr>allocated := Suc (allocated st),
             unfinished := unfinished st @ [allocated st],
             calls := calls st @
               (Connectdb (take (MAXLEN h) ci @ '' fallback_application_name='repmgr'' @ [CHR 0x27]) #
                (if srv_status (cluster (take (MAXLEN h) ci @ '' fallback_application_name='repmgr'' @ [CHR 0x27])) = CONNECTION_OK
                 then [Exec (allocated st) (''SET '' @ ''synchronous_commit'' @ '' TO '' @ [CHR 0x27] @ ''local'' @ [CHR 0x27])]
                 else []))\<rparr>)"
  by (simp add: establish_db_connection_def static_establish_db_connection_def PQconnectdb_def
      PQstatus_def set_config_def static_set_config_def PQexec_def Let_def)

lemma establish_candidate:
  "establish_db_connection h cluster (take (MAXCONNINFO h) ci) False st =
     Inr (\<lparr>handle = allocated st, server = candidate_server h cluster ci\<rparr>,
          st\<lparr>allocated := Suc (allocated st),
             unfinished := unfinished st @ [allocated st],
             calls := calls st @
               (Connectdb (candidate_connection_string h ci) #
                (if connect_fails h cluster ci then []
                 else [Exec (allocated st) (''SET '' @ ''synchronous_commit'' @ '' TO '' @ [CHR 0x27] @ ''local'' @ [CHR 0x27])]))\<rparr>)"
  unfolding establish_db_connection_False
  by (simp add: candidate_server_def candidate_connection_string_def connect_fails_def)

lemma pass_over_fails:
  assumes "connect_fails h cluster (fst (snd t))"
  shows "pass_over h cluster t st =
     st\<lparr>allocated := Suc (allocated st),
        unfinished := unfinished st @ [allocated st],
        calls := calls st @ [Connectdb (candidate_connection_string h (fst (snd t)))]\<rparr>"
  using assms unfolding pass_over_def establish_candidate
  by (simp add: PQstatus_def connect_fails_def)

lemma pass_over_connects:
  assumes "\<not> connect_fails h cluster (fst (snd t))"
  shows "pass_over h cluster t st =
     st\<lparr>allocated := Suc (allocated st),
        unfinished := removeAll (allocated st) (unfinished st @ [allocated st]),
        calls := calls st @
          [Connectdb (candidate_connection_string h (fst (snd t))),
           Exec (allocated st) (''SET '' @ ''synchronous_commit'' @ '' TO '' @ [CHR 0x27] @ ''local'' @ [CHR 0x27]),
           Exec (allocated st) ''SELECT pg_catalog.pg_is_in_recovery()'',
           Finish (allocated st)]\<rparr>"
  using assms unfolding pass_over_def establish_candidate
  by (simp add: PQstatus_def connect_fails_def is_standby_def PQexec_def PQfinish_def)

lemma take_candidate_connects:
  assumes "\<not> connect_fails h cluster (fst (snd t))"
  shows "take_candidate h cluster t st =
     st\<lparr>allocated := Suc (allocated st),
        unfinished := unfinished st @ [allocated st],
        calls := calls st @
          [Connectdb (candidate_connection_string h (fst (snd t))),
           Exec (allocated st) (''SET '' @ ''synchronous_commit'' @ '' TO '' @ [CHR 0x27] @ ''local'' @ [CHR 0x27]),
           Exec (allocated st) ''SELECT pg_catalog.pg_is_in_recovery()'']\<rparr>"
  using assms unfolding take_candidate_def establish_candidate
  by (simp add: is_standby_def PQexec_def)

lemma loop_passed_over:
  assumes "passed_over h cluster t"
  shows "get_master_connection_loop h cluster (t # ts) (buf, mid, st) =
         get_master_connection_loop h cluster ts
           (take (MAXCONNINFO h) (fst (snd t)), mid, pass_over h cluster t st)"
proof -
  obtain nid ci tp where t: "t = (nid, ci, tp)" by (cases t) auto
  show ?thesis
  proof (cases "connect_fails h cluster ci")
    case True
    then show ?thesis
      unfolding t pass_over_def
      by (simp add: establish_candidate PQstatus_def connect_fails_def)
  next
    case False
    then have "probe_result h cluster ci = - 1 \<or> probe_result h cluster ci = 1"
      using assms by (simp add: passed_over_def t)
    then show ?thesis
      using False unfolding t pass_over_def
      by (auto simp: establish_candidate PQstatus_def connect_fails_def is_standby_def
          PQexec_def probe_result_def Let_def)
  qed
qed

lemma loop_taken:
  assumes "taken h cluster t"
  shows "get_master_connection_loop h cluster (t # ts) (buf, mid, st) =
         Inr (Some \<lparr>handle = allocated st, server = candidate_server h cluster (fst (snd t))\<rparr>,
              take (MAXCONNINFO h) (fst (snd t)),
              (case mid of None \<Rightarrow> None | Some _ \<Rightarrow> Some (fst t)),
              take_candidate h cluster t st)"
proof -
  obtain nid ci tp where t: "t = (nid, ci, tp)" by (cases t) auto
  show ?thesis
    using assms unfolding t take_candidate_def taken_def
    by (simp add: establish_candidate PQstatus_def connect_fails_def is_standby_def
        PQexec_def probe_result_def Let_def split: option.splits)
qed

lemma passed_over_iff: "passed_over h cluster t \<longleftrightarrow> \<not> taken h cluster t"
  by (auto simp: passed_over_def taken_def probe_result_def is_standby_result_def)

lemma loop_all_passed_over:
  assumes "\<forall>t \<in> set ts. passed_over h cluster t"
  shows "get_master_connection_loop h cluster ts (buf, mid, st) =
         Inr (None, (if ts = [] then buf else take (MAXCONNINFO h) (fst (snd (last ts)))), mid,
              fold (pass_over h cluster) ts st)"
  using assms
proof (induction ts arbitrary: buf st)
  case Nil
  then show ?case by simp
next
  case (Cons t ts)
  have "passed_over h cluster t" using Cons.prems by simp
  from loop_passed_over[OF this]
  have "get_master_connection_loop h cluster (t # ts) (buf, mid, st) =
        get_master_connection_loop h cluster ts
          (take (MAXCONNINFO h) (fst (snd t)), mid, pass_over h cluster t st)" .
  also have "\<dots> = Inr (None,
      (if ts = [] then take (MAXCONNINFO h) (fst (snd t))
       else take (MAXCONNINFO h) (fst (snd (last ts)))), mid,
      fold (pass_over h cluster) ts (pass_over h cluster t st))"
    using Cons.IH Cons.prems by simp
  finally show ?case by simp
qed

lemma loop_first_taken:
  assumes "\<forall>t \<in> set pre. passed_over h cluster t" and "taken h cluster c"
  shows "get_master_connection_loop h cluster (pre @ c # post) (buf, mid, st) =
         Inr (Some \<lparr>handle = allocated (fold (pass_over h cluster) pre st),
                     server = candidate_server h cluster (fst (snd c))\<rparr>,
              take (MAXCONNINFO h) (fst (snd c)),
              (case mid of None \<Rightarrow> None | Some _ \<Rightarrow> Some (fst c)),
              take_candidate h cluster c (fold (pass_over h cluster) pre st))"
  using assms(1)
proof (induction pre arbitrary: buf st)
  case Nil
  show ?case using loop_taken[OF assms(2)] by simp
next
  case (Cons t pre)
  have "passed_over h cluster t" using Cons.prems by simp
  from loop_passed_over[OF this]
  have "get_master_connection_loop h cluster ((t # pre) @ c # post) (buf, mid, st) =
        get_master_connection_loop h cluster (pre @ c # post)
          (take (MAXCONNINFO h) (fst (snd t)), mid, pass_over h cluster t st)" by simp
  then show ?case using Cons.IH Cons.prems by simp
qed

lemma connected_pass_over:
  "connected (pass_over h cluster t st) =
     connected st @ [candidate_connection_string h (fst (snd t))]"
  by (cases "connect_fails h cluster (fst (snd t))")
     (simp_all add: pass_over_fails pass_over_connects connected_def)

lemma allocated_pass_over: "allocated (pass_over h cluster t st) = Suc (allocated st)"
  by (cases "connect_fails h cluster (fst (snd t))")
     (simp_all add: pass_over_fails pass_over_connects)

lemma probed_pass_over:
  "probed (pass_over h cluster t st) =
     probed st @ (if connect_fails h cluster (fst (snd t)) then [] else [allocated st])"
  by (cases "connect_fails h cluster (fst (snd t))")
     (simp_all add: pass_over_fails pass_over_connects probed_def)

lemma unfinished_pass_over:
  assumes "libpq_ok st"
  shows "unfinished (pass_over h cluster t st) =
     unfinished st @ (if connect_fails h cluster (fst (snd t)) then [allocated st] else [])"
proof -
  have "allocated st \<notin> set (unfinished st)" using assms by (auto simp: libpq_ok_def)
  then show ?thesis
    by (cases "connect_fails h cluster (fst (snd t))")
       (simp_all add: pass_over_fails pass_over_connects)
qed

lemma libpq_ok_pass_over:
  assumes "libpq_ok st"
  shows "libpq_ok (pass_over h cluster t st)"
  using assms unfolding libpq_ok_def unfinished_pass_over[OF assms] allocated_pass_over
  by (auto simp: less_Suc_eq)

lemma connected_fold_pass_over:
  "connected (fold (pass_over h cluster) ts st) =
     connected st @ map (\<lambda>t. candidate_connection_string h (fst (snd t))) ts"
  by (induction ts arbitrary: st) (simp_all add: connected_pass_over)

lemma allocated_fold_pass_over:
  "allocated (fold (pass_over h cluster) ts st) = allocated st + length ts"
  by (induction ts arbitrary: st) (simp_all add: allocated_pass_over)

lemma libpq_ok_fold_pass_over:
  "libpq_ok st \<Longrightarrow> libpq_ok (fold (pass_over h cluster) ts st)"
  by (induction ts arbitrary: st) (simp_all add: libpq_ok_pass_over)

lemma unfinished_fold_keeps:
  assumes "libpq_ok st" and "n \<in> set (unfinished st)"
  shows "n \<in> set (unfinished (fold (pass_over h cluster) ts st))"
  using assms
proof (induction ts arbitrary: st)
  case Nil
  then show ?case by simp
next
  case (Cons t ts)
  have "n \<in> set (unfinished (pass_over h cluster t st))"
    using Cons.prems by (simp add: unfinished_pass_over)
  with Cons.IH[OF libpq_ok_pass_over[OF Cons.prems(1)]] show ?case by simp
qed

lemma connected_take_candidate:
  "\<not> connect_fails h cluster (fst (snd t)) \<Longrightarrow>
   connected (take_candidate h cluster t st) =
     connected st @ [candidate_connection_string h (fst (snd t))]"
  by (simp add: take_candidate_connects connected_def)

lemma unfinished_take_candidate:
  "\<not> connect_fails h cluster (fst (snd t)) \<Longrightarrow>
   unfinished (take_candidate h cluster t st) = unfinished st @ [allocated st]"
  by (simp add: take_candidate_connects)

lemma probed_take_candidate:
  "\<not> connect_fails h cluster (fst (snd t)) \<Longrightarrow>
   probed (take_candidate h cluster t st) = probed st @ [allocated st]"
  by (simp add: take_candidate_connects probed_def)

lemma get_master_connection_failed_query:
  assumes "fst (node_list_query conn) \<noteq> PGRES_TUPLES_OK"
  shows "get_master_connection h cluster conn mid out st =
     Inr (None, (case mid of None \<Rightarrow> None | Some _ \<Rightarrow> Some (NODE_NOT_FOUND h)), out, st)"
proof -
  obtain s ts where q: "node_list_query conn = (s, ts)" by (cases "node_list_query conn") auto
  have "s \<noteq> PGRES_TUPLES_OK" using assms q by simp
  then show ?thesis unfolding get_master_connection_def q Let_def by simp
qed

lemma get_master_connection_none:
  assumes "fst (node_list_query conn) = PGRES_TUPLES_OK"
    and "\<forall>t \<in> set (snd (node_list_query conn)). passed_over h cluster t"
  shows "get_master_connection h cluster conn mid out st =
     Inr (None, (case mid of None \<Rightarrow> None | Some _ \<Rightarrow> Some (NODE_NOT_FOUND h)),
          (case out of None \<Rightarrow> None
           | Some b \<Rightarrow> Some (if snd (node_list_query conn) = [] then b
                             else take (MAXCONNINFO h) (fst (snd (last (snd (node_list_query conn))))))),
          fold (pass_over h cluster) (snd (node_list_query conn)) st)"
proof -
  obtain s ts where q: "node_list_query conn = (s, ts)" by (cases "node_list_query conn") auto
  have s: "s = PGRES_TUPLES_OK" and ts: "\<forall>t \<in> set ts. passed_over h cluster t"
    using assms q by simp_all
  show ?thesis
    unfolding get_master_connection_def q Let_def
    by (simp add: s loop_all_passed_over[OF ts] split: option.splits)
qed

lemma get_master_connection_some:
  assumes "fst (node_list_query conn) = PGRES_TUPLES_OK"
    and "snd (node_list_query conn) = pre @ c # post"
    and "\<forall>t \<in> set pre. passed_over h cluster t"
    and "taken h cluster c"
  shows "get_master_connection h cluster conn mid out st =
     Inr (Some \<lparr>handle = allocated st + length pre,
                 server = candidate_server h cluster (fst (snd c))\<rparr>,
          (case mid of None \<Rightarrow> None | Some _ \<Rightarrow> Some (fst c)),
          (case out of None \<Rightarrow> None | Some _ \<Rightarrow> Some (take (MAXCONNINFO h) (fst (snd c)))),
          take_candidate h cluster c (fold (pass_over h cluster) pre st))"
proof -
  obtain s ts where q: "node_list_query conn = (s, ts)" by (cases "node_list_query conn") auto
  have s: "s = PGRES_TUPLES_OK" and ts: "ts = pre @ c # post"
    using assms q by simp_all
  show ?thesis
    unfolding get_master_connection_def q Let_def
    by (simp add: s ts loop_first_taken[OF assms(3,4)] allocated_fold_pass_over
        split: option.splits)
qed

lemma candidates_split:
  "(\<forall>t \<in> set ts. passed_over h cluster t) \<or>
   (\<exists>pre c post. ts = pre @ c # post \<and> (\<forall>t \<in> set pre. passed_over h cluster t) \<and>
                  taken h cluster c)"
proof (cases "\<forall>t \<in> set ts. passed_over h cluster t")
  case True
  then show ?thesis by simp
next
  case False
  let ?P = "passed_over h cluster"
  have d: "dropWhile ?P ts \<noteq> []" using False by simp
  then obtain c post where cp: "dropWhile ?P ts = c # post" by (cases "dropWhile ?P ts") auto
  have "\<not> ?P c" using cp by (metis hd_dropWhile list.sel(1) d)
  then have "taken h cluster c" by (simp add: passed_over_iff)
  moreover have "ts = takeWhile ?P ts @ c # post" using cp by (metis takeWhile_dropWhile_id)
  moreover have "\<forall>t \<in> set (takeWhile ?P ts). ?P t" by (metis set_takeWhileD)
  ultimately show ?thesis by blast
qed

lemma node_list_query_ok:
  "nodes_ok (server conn) \<Longrightarrow>
   node_list_query conn =
     (PGRES_TUPLES_OK,
      map (\<lambda>r. (col_node_id r, col_conninfo r, type_priority r)) (node_list_rows (nodes (server conn))))"
  by (simp add: node_list_query_def)

lemma node_list_rows_mset:
  "mset (node_list_rows ns) = filter_mset (\<lambda>r. col_type r \<noteq> ''witness'') (mset ns)"
  by (simp add: node_list_rows_def)

lemma node_list_rows_sorted: "sorted (map node_list_order (node_list_rows ns))"
  by (simp add: node_list_rows_def)

lemma node_list_order_le:
  "node_list_order a \<le> node_list_order b \<longleftrightarrow>
     (col_active a \<and> \<not> col_active b) \<or>
     (col_active a = col_active b \<and>
        ((col_type a = ''master'' \<and> col_type b \<noteq> ''master'') \<or>
         ((col_type a = ''master'') = (col_type b = ''master'') \<and>
            (col_priority a < col_priority b \<or>
             (col_priority a = col_priority b \<and> col_node_id a \<le> col_node_id b)))))"
  by (auto simp: node_list_order_def type_priority_def less_eq_prod_def less_prod_def)

lemma node_list_rows_order:
  assumes "i < j" and "j < length (node_list_rows ns)"
  shows "node_list_order (node_list_rows ns ! i) \<le> node_list_order (node_list_rows ns ! j)"
proof -
  have "map node_list_order (node_list_rows ns) ! i \<le> map node_list_order (node_list_rows ns) ! j"
    using node_list_rows_sorted[of ns] assms by (simp add: sorted_iff_nth_mono)
  then show ?thesis using assms by simp
qed

lemma probe_order:
  assumes "fst (node_list_query conn) = PGRES_TUPLES_OK"
  shows "\<exists>r mid' out' st' k.
     get_master_connection h cluster conn mid out st = Inr (r, mid', out', st') \<and>
     k \<le> length (snd (node_list_query conn)) \<and>
     connected st' = connected st @
       map (\<lambda>t. candidate_connection_string h (fst (snd t))) (take k (snd (node_list_query conn))) \<and>
     allocated st' = allocated st + k \<and>
     (r = None \<longrightarrow> k = length (snd (node_list_query conn)))"
proof -
  let ?ts = "snd (node_list_query conn)"
  from candidates_split[of ?ts h cluster] show ?thesis
  proof
    assume a: "\<forall>t \<in> set ?ts. passed_over h cluster t"
    have "get_master_connection h cluster conn mid out st =
        Inr (None, (case mid of None \<Rightarrow> None | Some _ \<Rightarrow> Some (NODE_NOT_FOUND h)),
          (case out of None \<Rightarrow> None
           | Some b \<Rightarrow> Some (if ?ts = [] then b
                             else take (MAXCONNINFO h) (fst (snd (last ?ts))))),
          fold (pass_over h cluster) ?ts st) \<and>
      length ?ts \<le> length ?ts \<and>
      connected (fold (pass_over h cluster) ?ts st) = connected st @
        map (\<lambda>t. candidate_connection_string h (fst (snd t))) (take (length ?ts) ?ts) \<and>
      allocated (fold (pass_over h cluster) ?ts st) = allocated st + length ?ts \<and>
      (None = (None :: PGconn option) \<longrightarrow> length ?ts = length ?ts)"
      using get_master_connection_none[OF assms a]
      by (simp add: connected_fold_pass_over allocated_fold_pass_over)
    then show ?thesis by blast
  next
    assume "\<exists>pre c post. ?ts = pre @ c # post \<and> (\<forall>t \<in> set pre. passed_over h cluster t) \<and>
                  taken h cluster c"
    then obtain pre c post where s: "?ts = pre @ c # post"
      and p: "\<forall>t \<in> set pre. passed_over h cluster t" and t: "taken h cluster c" by blast
    have nf: "\<not> connect_fails h cluster (fst (snd c))" using t by (simp add: taken_def)
    have al: "allocated (take_candidate h cluster c s') = Suc (allocated s')" for s'
      by (simp add: take_candidate_connects[OF nf])
    let ?st' = "take_candidate h cluster c (fold (pass_over h cluster) pre st)"
    have "get_master_connection h cluster conn mid out st =
        Inr (Some \<lparr>handle = allocated st + length pre,
                 server = candidate_server h cluster (fst (snd c))\<rparr>,
          (case mid of None \<Rightarrow> None | Some _ \<Rightarrow> Some (fst c)),
          (case out of None \<Rightarrow> None | Some _ \<Rightarrow> Some (take (MAXCONNINFO h) (fst (snd c)))),
          ?st') \<and>
      Suc (length pre) \<le> length ?ts \<and>
      connected ?st' = connected st @
        map (\<lambda>t. candidate_connection_string h (fst (snd t))) (take (Suc (length pre)) ?ts) \<and>
      allocated ?st' = allocated st + Suc (length pre) \<and>
      (Some \<lparr>handle = allocated st + length pre,
                 server = candidate_server h cluster (fst (snd c))\<rparr> = None
         \<longrightarrow> Suc (length pre) = length ?ts)"
      using get_master_connection_some[OF assms s p t]
      by (simp add: s connected_take_candidate[OF nf] connected_fold_pass_over al
          allocated_fold_pass_over)
    then show ?thesis by blast
  qed
qed

lemma probe_order_taken:
  assumes "fst (node_list_query conn) = PGRES_TUPLES_OK"
    and "snd (node_list_query conn) = pre @ rest" and "rest \<noteq> []"
    and "\<forall>t \<in> set pre. passed_over h cluster t"
  shows "\<exists>r mid' out' st' k.
     get_master_connection h cluster conn mid out st = Inr (r, mid', out', st') \<and>
     length pre < k \<and> k \<le> length (snd (node_list_query conn)) \<and>
     connected st' = connected st @
       map (\<lambda>t. candidate_connection_string h (fst (snd t))) (take k (snd (node_list_query conn)))"
proof -
  let ?ts = "snd (node_list_query conn)"
  from candidates_split[of rest h cluster] show ?thesis
  proof
    assume "\<forall>t \<in> set rest. passed_over h cluster t"
    then have a: "\<forall>t \<in> set ?ts. passed_over h cluster t" using assms(2,4) by auto
    have "get_master_connection h cluster conn mid out st =
        Inr (None, (case mid of None \<Rightarrow> None | Some _ \<Rightarrow> Some (NODE_NOT_FOUND h)),
          (case out of None \<Rightarrow> None
           | Some b \<Rightarrow> Some (if ?ts = [] then b
                             else take (MAXCONNINFO h) (fst (snd (last ?ts))))),
          fold (pass_over h cluster) ?ts st) \<and>
      length pre < length ?ts \<and> length ?ts \<le> length ?ts \<and>
      connected (fold (pass_over h cluster) ?ts st) = connected st @
        map (\<lambda>t. candidate_connection_string h (fst (snd t))) (take (length ?ts) ?ts)"
      using get_master_connection_none[OF assms(1) a] assms(2,3)
      by (simp add: connected_fold_pass_over)
    then show ?thesis by blast
  next
    assume "\<exists>pre2 c post. rest = pre2 @ c # post \<and> (\<forall>t \<in> set pre2. passed_over h cluster t) \<and>
                  taken h cluster c"
    then obtain pre2 c post where r: "rest = pre2 @ c # post"
      and p2: "\<forall>t \<in> set pre2. passed_over h cluster t" and t: "taken h cluster c" by blast
    have s: "?ts = (pre @ pre2) @ c # post" using assms(2) r by simp
    have p: "\<forall>t \<in> set (pre @ pre2). passed_over h cluster t" using assms(4) p2 by auto
    have nf: "\<not> connect_fails h cluster (fst (snd c))" using t by (simp add: taken_def)
    let ?st' = "take_candidate h cluster c (fold (pass_over h cluster) (pre @ pre2) st)"
    have "get_master_connection h cluster conn mid out st =
        Inr (Some \<lparr>handle = allocated st + length (pre @ pre2),
                 server = candidate_server h cluster (fst (snd c))\<rparr>,
          (case mid of None \<Rightarrow> None | Some _ \<Rightarrow> Some (fst c)),
          (case out of None \<Rightarrow> None | Some _ \<Rightarrow> Some (take (MAXCONNINFO h) (fst (snd c)))),
          ?st') \<and>
      length pre < Suc (length (pre @ pre2)) \<and> Suc (length (pre @ pre2)) \<le> length ?ts \<and>
      connected ?st' = connected st @
        map (\<lambda>t. candidate_connection_string h (fst (snd t))) (take (Suc (length (pre @ pre2))) ?ts)"
      using get_master_connection_some[OF assms(1) s p t]
      by (simp add: s connected_take_candidate[OF nf] connected_fold_pass_over)
    then show ?thesis by blast
  qed
qed

lemma is_standby_result_ambiguous:
  assumes "resultStatus res = PGRES_TUPLES_OK"
    and "length (tuples res) \<noteq> 1 \<or> tuples res ! 0 \<noteq> ''t''"
  shows "is_standby_result (Some res) = 0"
  using assms by (auto simp: is_standby_result_def PQresultStatus_def PQntuples_def)

lemma fst_is_standby:
  "fst (is_standby rc s) =
     is_standby_result (srv_exec (server rc) ''SELECT pg_catalog.pg_is_in_recovery()'')"
  by (simp add: is_standby_def PQexec_def)

lemma probe_handles_append:
  "probe_handles h cluster n (xs @ ys) =
     probe_handles h cluster n xs @ probe_handles h cluster (n + length xs) ys"
  by (induction xs arbitrary: n) simp_all

lemma probed_fold_pass_over:
  "probed (fold (pass_over h cluster) ts st) =
     probed st @ probe_handles h cluster (allocated st) ts"
  by (induction ts arbitrary: st) (simp_all add: probed_pass_over allocated_pass_over)

lemma probe_trace:
  assumes "fst (node_list_query conn) = PGRES_TUPLES_OK"
  shows "\<exists>r mid' out' st'.
     get_master_connection h cluster conn mid out st = Inr (r, mid', out', st') \<and>
     connected st' = connected st @
       map (\<lambda>t. candidate_connection_string h (fst (snd t)))
         (take (Suc (length (takeWhile (passed_over h cluster) (snd (node_list_query conn)))))
            (snd (node_list_query conn))) \<and>
     probed st' = probed st @
       probe_handles h cluster (allocated st)
         (take (Suc (length (takeWhile (passed_over h cluster) (snd (node_list_query conn)))))
            (snd (node_list_query conn))) \<and>
     (r = None \<longleftrightarrow>
        takeWhile (passed_over h cluster) (snd (node_list_query conn)) = snd (node_list_query conn))"
proof -
  let ?ts = "snd (node_list_query conn)"
  let ?P = "passed_over h cluster"
  from candidates_split[of ?ts h cluster] show ?thesis
  proof
    assume a: "\<forall>t \<in> set ?ts. ?P t"
    then have tw: "takeWhile ?P ?ts = ?ts" by simp
    have "get_master_connection h cluster conn mid out st =
        Inr (None, (case mid of None \<Rightarrow> None | Some _ \<Rightarrow> Some (NODE_NOT_FOUND h)),
          (case out of None \<Rightarrow> None
           | Some b \<Rightarrow> Some (if ?ts = [] then b
                             else take (MAXCONNINFO h) (fst (snd (last ?ts))))),
          fold (pass_over h cluster) ?ts st) \<and>
      connected (fold (pass_over h cluster) ?ts st) = connected st @
        map (\<lambda>t. candidate_connection_string h (fst (snd t)))
          (take (Suc (length (takeWhile ?P ?ts))) ?ts) \<and>
      probed (fold (pass_over h cluster) ?ts st) = probed st @
        probe_handles h cluster (allocated st) (take (Suc (length (takeWhile ?P ?ts))) ?ts) \<and>
      ((None :: PGconn option) = None \<longleftrightarrow> takeWhile ?P ?ts = ?ts)"
      using get_master_connection_none[OF assms a]
      by (simp add: tw connected_fold_pass_over probed_fold_pass_over)
    then show ?thesis by blast
  next
    assume "\<exists>pre c post. ?ts = pre @ c # post \<and> (\<forall>t \<in> set pre. ?P t) \<and> taken h cluster c"
    then obtain pre c post where s: "?ts = pre @ c # post"
      and p: "\<forall>t \<in> set pre. ?P t" and t: "taken h cluster c" by blast
    have nf: "\<not> connect_fails h cluster (fst (snd c))" using t by (simp add: taken_def)
    have np: "\<not> ?P c" using t by (simp add: passed_over_iff)
    have tw: "takeWhile ?P ?ts = pre" unfolding s using p np by simp
    have tk: "take (Suc (length pre)) ?ts = pre @ [c]" unfolding s by simp
    have ne: "pre \<noteq> ?ts" unfolding s by simp
    let ?st' = "take_candidate h cluster c (fold (pass_over h cluster) pre st)"
    let ?rc = "\<lparr>handle = allocated st + length pre,
                 server = candidate_server h cluster (fst (snd c))\<rparr>"
    have "get_master_connection h cluster conn mid out st =
        Inr (Some ?rc,
          (case mid of None \<Rightarrow> None | Some _ \<Rightarrow> Some (fst c)),
          (case out of None \<Rightarrow> None | Some _ \<Rightarrow> Some (take (MAXCONNINFO h) (fst (snd c)))),
          ?st') \<and>
      connected ?st' = connected st @
        map (\<lambda>t. candidate_connection_string h (fst (snd t)))
          (take (Suc (length (takeWhile ?P ?ts))) ?ts) \<and>
      probed ?st' = probed st @
        probe_handles h cluster (allocated st) (take (Suc (length (takeWhile ?P ?ts))) ?ts) \<and>
      (Some ?rc = None \<longleftrightarrow> takeWhile ?P ?ts = ?ts)"
      using get_master_connection_some[OF assms s p t] nf ne
      by (simp add: tw tk connected_take_candidate[OF nf] connected_fold_pass_over
          probed_take_candidate[OF nf] probed_fold_pass_over probe_handles_append
          allocated_fold_pass_over)
    then show ?thesis by blast
  qed
qed

lemma fallback_application_name_length:
  "length ('' fallback_application_name='repmgr'' @ [CHR 0x27]) = 35"
  by simp

lemma candidate_connection_string_fits:
  "conninfo_fits h ci \<Longrightarrow>
   candidate_connection_string h ci = ci @ '' fallback_application_name='repmgr'' @ [CHR 0x27] \<and>
   length (candidate_connection_string h ci) < MAXLEN h"
  by (simp add: conninfo_fits_def candidate_connection_string_def)

lemmas example_defs =
  node_list_query_def example_registry_def example_row_def node_list_rows_def
  node_list_order_def type_priority_def passed_over_def taken_def connect_fails_def
  probe_result_def candidate_server_def example_cluster_def example_server_def example_down_def
  is_standby_result_def PQresultStatus_def PQntuples_def candidate_connection_string_def
  example_h_def example_driver_def libpq_ok_def
  conninfo_fits_def

text \<open>
  C1. With a readable registry whose candidates' conninfo are within the buffer bounds:
  the tuples of the node list are those of the rows of \<^verbatim>\<open>repmgr.nodes\<close> whose type is not
  \<^verbatim>\<open>witness\<close>, each once; of two candidates the earlier one is active when only one of
  them is, else is of type \<^verbatim>\<open>master\<close> when only one of them is, else has the smaller
  priority, else the smaller or equal node id; and \<open>get_master_connection\<close> asks the
  driver to connect to the candidates in this order, from the first up to and including
  the first one that connects and reports not recovering (to all of them when there is
  none, and exactly then NULL is returned), running the recovery probe on each of them
  that connects.
\<close>

theorem node_list_order_and_probes:
  assumes "nodes_ok (server conn)"
    and "\<forall>r \<in> set (node_list_rows (nodes (server conn))). conninfo_fits h (col_conninfo r)"
  shows "(let rows = node_list_rows (nodes (server conn));
              k = Suc (length (takeWhile
                    (\<lambda>r. passed_over h cluster (col_node_id r, col_conninfo r, type_priority r)) rows))
          in
     node_list_query conn =
       (PGRES_TUPLES_OK, map (\<lambda>r. (col_node_id r, col_conninfo r, type_priority r)) rows) \<and>
     mset rows = filter_mset (\<lambda>r. col_type r \<noteq> ''witness'') (mset (nodes (server conn))) \<and>
     (\<forall>i j. i < j \<and> j < length rows \<longrightarrow>
        (col_active (rows ! i) \<and> \<not> col_active (rows ! j)) \<or>
        (col_active (rows ! i) = col_active (rows ! j) \<and>
           ((col_type (rows ! i) = ''master'' \<and> col_type (rows ! j) \<noteq> ''master'') \<or>
            ((col_type (rows ! i) = ''master'') = (col_type (rows ! j) = ''master'') \<and>
               (col_priority (rows ! i) < col_priority (rows ! j) \<or>
                (col_priority (rows ! i) = col_priority (rows ! j) \<and>
                 col_node_id (rows ! i) \<le> col_node_id (rows ! j))))))) \<and>
     (\<exists>r mid' out' st'.
        get_master_connection h cluster conn master_id master_conninfo_out st =
          Inr (r, mid', out', st') \<and>
        connected st' = connected st @
          map (\<lambda>r. candidate_connection_string h (col_conninfo r)) (take k rows) \<and>
        probed st' = probed st @
          probe_handles h cluster (allocated st)
            (map (\<lambda>r. (col_node_id r, col_conninfo r, type_priority r)) (take k rows)) \<and>
        (r = None \<longleftrightarrow> k = Suc (length rows))))"
proof -
  let ?rows = "node_list_rows (nodes (server conn))"
  let ?f = "\<lambda>r. (col_node_id r, col_conninfo r, type_priority r)"
  let ?P = "passed_over h cluster"
  let ?k = "Suc (length (takeWhile (\<lambda>r. ?P (?f r)) ?rows))"
  have q: "node_list_query conn = (PGRES_TUPLES_OK, map ?f ?rows)"
    using node_list_query_ok[OF assms(1)] .
  have q1: "fst (node_list_query conn) = PGRES_TUPLES_OK" and q2: "snd (node_list_query conn) = map ?f ?rows"
    unfolding q by simp_all
  have o: "\<forall>i j. i < j \<and> j < length ?rows \<longrightarrow>
        (col_active (?rows ! i) \<and> \<not> col_active (?rows ! j)) \<or>
        (col_active (?rows ! i) = col_active (?rows ! j) \<and>
           ((col_type (?rows ! i) = ''master'' \<and> col_type (?rows ! j) \<noteq> ''master'') \<or>
            ((col_type (?rows ! i) = ''master'') = (col_type (?rows ! j) = ''master'') \<and>
               (col_priority (?rows ! i) < col_priority (?rows ! j) \<or>
                (col_priority (?rows ! i) = col_priority (?rows ! j) \<and>
                 col_node_id (?rows ! i) \<le> col_node_id (?rows ! j))))))"
    using node_list_rows_order[of _ _ "nodes (server conn)"] unfolding node_list_order_le
    by blast
  have tw: "takeWhile ?P (map ?f ?rows) = map ?f (takeWhile (\<lambda>r. ?P (?f r)) ?rows)"
    by (simp add: takeWhile_map comp_def)
  have all: "takeWhile ?P (map ?f ?rows) = map ?f ?rows \<longleftrightarrow> ?k = Suc (length ?rows)"
  proof
    assume "takeWhile ?P (map ?f ?rows) = map ?f ?rows"
    then have "length (takeWhile ?P (map ?f ?rows)) = length (map ?f ?rows)"
      by (rule arg_cong)
    then show "?k = Suc (length ?rows)" unfolding tw by simp
  next
    assume "?k = Suc (length ?rows)"
    then have l: "length (takeWhile (\<lambda>r. ?P (?f r)) ?rows) = length ?rows" by simp
    have "takeWhile (\<lambda>r. ?P (?f r)) ?rows =
        take (length (takeWhile (\<lambda>r. ?P (?f r)) ?rows)) ?rows"
      by (rule takeWhile_eq_take)
    then have e: "takeWhile (\<lambda>r. ?P (?f r)) ?rows = ?rows" unfolding l by simp
    show "takeWhile ?P (map ?f ?rows) = map ?f ?rows" unfolding tw e by (rule refl)
  qed
  from probe_trace[OF q1, of h cluster master_id master_conninfo_out st]
  obtain r mid' out' st' where
    g: "get_master_connection h cluster conn master_id master_conninfo_out st = Inr (r, mid', out', st')"
    and c: "connected st' = connected st @
       map (\<lambda>t. candidate_connection_string h (fst (snd t)))
         (take (Suc (length (takeWhile ?P (snd (node_list_query conn))))) (snd (node_list_query conn)))"
    and p: "probed st' = probed st @
       probe_handles h cluster (allocated st)
         (take (Suc (length (takeWhile ?P (snd (node_list_query conn))))) (snd (node_list_query conn)))"
    and n: "r = None \<longleftrightarrow> takeWhile ?P (snd (node_list_query conn)) = snd (node_list_query conn)"
    by blast
  have c': "connected st' = connected st @
      map (\<lambda>r. candidate_connection_string h (col_conninfo r)) (take ?k ?rows)"
    using c unfolding q2 tw by (simp add: take_map comp_def)
  have p': "probed st' = probed st @
      probe_handles h cluster (allocated st) (map ?f (take ?k ?rows))"
    using p unfolding q2 tw by (simp add: take_map)
  have n': "r = None \<longleftrightarrow> ?k = Suc (length ?rows)"
    using n all unfolding q2 by simp
  have "\<exists>r mid' out' st'.
        get_master_connection h cluster conn master_id master_conninfo_out st =
          Inr (r, mid', out', st') \<and>
        connected st' = connected st @
          map (\<lambda>r. candidate_connection_string h (col_conninfo r)) (take ?k ?rows) \<and>
        probed st' = probed st @
          probe_handles h cluster (allocated st) (map ?f (take ?k ?rows)) \<and>
        (r = None \<longleftrightarrow> ?k = Suc (length ?rows))"
    using g c' p' n' by blast
  then show ?thesis
    using q o node_list_rows_mset[of "nodes (server conn)"] unfolding Let_def by blast
qed

theorem node_list_order_and_probes_witness:
  "nodes_ok (server (example_registry
      [example_row 2 ''standby'' ''host=n2'', example_row 9 ''witness'' ''host=n9'',
       example_row 1 ''master'' ''host=n1''])) \<and>
   node_list_rows (nodes (server (example_registry
      [example_row 2 ''standby'' ''host=n2'', example_row 9 ''witness'' ''host=n9'',
       example_row 1 ''master'' ''host=n1'']))) =
     [example_row 1 ''master'' ''host=n1'', example_row 2 ''standby'' ''host=n2''] \<and>
   conninfo_fits example_h ''host=n1'' \<and> conninfo_fits example_h ''host=n2'' \<and>
   (\<exists>r mid' out' st'.
      get_master_connection example_h example_cluster (example_registry
        [example_row 2 ''standby'' ''host=n2'', example_row 9 ''witness'' ''host=n9'',
         example_row 1 ''master'' ''host=n1'']) None None example_driver =
        Inr (r, mid', out', st') \<and>
      r \<noteq> None \<and>
      connected st' = [candidate_connection_string example_h ''host=n1'',
                       candidate_connection_string example_h ''host=n2''] \<and>
      probed st' = [1, 2])"
proof -
  let ?c = "example_registry
      [example_row 2 ''standby'' ''host=n2'', example_row 9 ''witness'' ''host=n9'',
       example_row 1 ''master'' ''host=n1'']"
  have n: "nodes_ok (server ?c)" by (simp add: example_registry_def)
  have r: "node_list_rows (nodes (server ?c)) =
     [example_row 1 ''master'' ''host=n1'', example_row 2 ''standby'' ''host=n2'']"
    by (simp add: example_defs)
  have f1: "conninfo_fits example_h ''host=n1''" and f2: "conninfo_fits example_h ''host=n2''"
    by (simp_all add: example_defs)
  have f: "\<forall>r \<in> set (node_list_rows (nodes (server ?c))). conninfo_fits example_h (col_conninfo r)"
    unfolding r using f1 f2 by (simp add: example_row_def)
  have p1: "passed_over example_h example_cluster (1, ''host=n1'', 1)" by (simp add: example_defs)
  have p2: "\<not> passed_over example_h example_cluster (2, ''host=n2'', 2)" by (simp add: example_defs)
  have c1: "\<not> connect_fails example_h example_cluster ''host=n1''" by (simp add: example_defs)
  have c2: "\<not> connect_fails example_h example_cluster ''host=n2''" by (simp add: example_defs)
  have e: "connected example_driver = []" "probed example_driver = []" "allocated example_driver = 1"
    by (simp_all add: example_driver_def connected_def probed_def)
  have "\<exists>r mid' out' st'.
      get_master_connection example_h example_cluster ?c None None example_driver =
        Inr (r, mid', out', st') \<and>
      r \<noteq> None \<and>
      connected st' = [candidate_connection_string example_h ''host=n1'',
                       candidate_connection_string example_h ''host=n2''] \<and>
      probed st' = [1, 2]"
    using node_list_order_and_probes[OF n f, of example_cluster None None example_driver]
    unfolding Let_def r
    by (auto simp: example_row_def type_priority_def p1 p2 c1 c2 e numeral_2_eq_2)
  then show ?thesis using n r f1 f2 by blast
qed

text \<open>
  C2. When the node list is \<open>pre @ c # post\<close>, the conninfo of \<open>c\<close> and of the candidates
  of \<open>pre\<close> are within the buffer bounds, every candidate of \<open>pre\<close> is passed over and \<open>c\<close>
  connects and reports not recovering, \<open>get_master_connection\<close> returns the connection
  to \<open>c\<close>, which is open and not released; \<^verbatim>\<open>*master_id\<close>, when given, is the node id of \<open>c\<close>;
  the buffer \<^verbatim>\<open>master_conninfo_out\<close>, when given, holds the conninfo of \<open>c\<close>; and the driver
  was asked to connect to the candidates of \<open>pre\<close> and to \<open>c\<close> only, the last probe being
  the one on the returned connection.
\<close>

theorem first_live_primary_returned:
  assumes "fst (node_list_query conn) = PGRES_TUPLES_OK"
    and "snd (node_list_query conn) = pre @ c # post"
    and "\<forall>t \<in> set pre. passed_over h cluster t"
    and "taken h cluster c"
    and "\<forall>t \<in> set (pre @ [c]). conninfo_fits h (fst (snd t))"
  shows "\<exists>remote_conn st'.
     get_master_connection h cluster conn master_id master_conninfo_out st =
       Inr (Some remote_conn,
            (case master_id of None \<Rightarrow> None | Some _ \<Rightarrow> Some (fst c)),
            (case master_conninfo_out of None \<Rightarrow> None
             | Some _ \<Rightarrow> Some (fst (snd c))),
            st') \<and>
     server remote_conn = candidate_server h cluster (fst (snd c)) \<and>
     PQstatus remote_conn = CONNECTION_OK \<and>
     handle remote_conn \<in> set (unfinished st') \<and>
     connected st' = connected st @
       map (\<lambda>t. candidate_connection_string h (fst (snd t))) (pre @ [c]) \<and>
     allocated st' = allocated st + length pre + 1 \<and>
     last (probed st') = handle remote_conn"
proof -
  have nf: "\<not> connect_fails h cluster (fst (snd c))" using assms(4) by (simp add: taken_def)
  let ?s = "fold (pass_over h cluster) pre st"
  let ?rc = "\<lparr>handle = allocated st + length pre,
              server = candidate_server h cluster (fst (snd c))\<rparr>"
  let ?st' = "take_candidate h cluster c ?s"
  have g: "get_master_connection h cluster conn master_id master_conninfo_out st =
       Inr (Some ?rc,
            (case master_id of None \<Rightarrow> None | Some _ \<Rightarrow> Some (fst c)),
            (case master_conninfo_out of None \<Rightarrow> None
             | Some _ \<Rightarrow> Some (fst (snd c))),
            ?st')"
    unfolding get_master_connection_some[OF assms(1,2,3,4)] using assms(5)
    by (simp add: conninfo_fits_def split: option.splits)
  have 1: "server ?rc = candidate_server h cluster (fst (snd c))" by simp
  have 2: "PQstatus ?rc = CONNECTION_OK" using nf by (simp add: PQstatus_def connect_fails_def)
  have 3: "handle ?rc \<in> set (unfinished ?st')"
    by (simp add: unfinished_take_candidate[OF nf] allocated_fold_pass_over)
  have 4: "connected ?st' = connected st @
       map (\<lambda>t. candidate_connection_string h (fst (snd t))) (pre @ [c])"
    by (simp add: connected_take_candidate[OF nf] connected_fold_pass_over)
  have 5: "allocated ?st' = allocated st + length pre + 1"
    by (simp add: take_candidate_connects[OF nf] allocated_fold_pass_over)
  have 6: "last (probed ?st') = handle ?rc"
    by (simp add: probed_take_candidate[OF nf] allocated_fold_pass_over)
  from g 1 2 3 4 5 6 show ?thesis by blast
qed

theorem first_live_primary_returned_witness:
  "fst (node_list_query (example_registry
      [example_row 2 ''standby'' ''host=n2'', example_row 3 ''standby'' ''host=n3'',
       example_row 1 ''master'' ''host=n1''])) = PGRES_TUPLES_OK \<and>
   snd (node_list_query (example_registry
      [example_row 2 ''standby'' ''host=n2'', example_row 3 ''standby'' ''host=n3'',
       example_row 1 ''master'' ''host=n1''])) =
     [(1, ''host=n1'', 1)] @ (2, ''host=n2'', 2) # [(3, ''host=n3'', 2)] \<and>
   passed_over example_h example_cluster (1, ''host=n1'', 1) \<and>
   taken example_h example_cluster (2, ''host=n2'', 2) \<and>
   conninfo_fits example_h ''host=n1'' \<and> conninfo_fits example_h ''host=n2'' \<and>
   (\<exists>remote_conn st'.
      get_master_connection example_h example_cluster (example_registry
        [example_row 2 ''standby'' ''host=n2'', example_row 3 ''standby'' ''host=n3'',
         example_row 1 ''master'' ''host=n1'']) (Some 0) (Some []) example_driver =
        Inr (Some remote_conn, Some 2, Some ''host=n2'', st') \<and>
      handle remote_conn \<in> set (unfinished st') \<and> allocated st' = 3)"
proof -
  let ?c = "example_registry
      [example_row 2 ''standby'' ''host=n2'', example_row 3 ''standby'' ''host=n3'',
       example_row 1 ''master'' ''host=n1'']"
  have q: "node_list_query ?c =
      (PGRES_TUPLES_OK, [(1, ''host=n1'', 1)] @ (2, ''host=n2'', 2) # [(3, ''host=n3'', 2)])"
    by (simp add: example_defs)
  have q1: "fst (node_list_query ?c) = PGRES_TUPLES_OK"
    and q2: "snd (node_list_query ?c) = [(1, ''host=n1'', 1)] @ (2, ''host=n2'', 2) # [(3, ''host=n3'', 2)]"
    unfolding q by simp_all
  have p: "\<forall>t \<in> set [(1, ''host=n1'', 1)]. passed_over example_h example_cluster t"
    by (simp add: example_defs)
  have t: "taken example_h example_cluster (2, ''host=n2'', 2)"
    by (simp add: example_defs)
  have f1: "conninfo_fits example_h ''host=n1''" and f2: "conninfo_fits example_h ''host=n2''"
    by (simp_all add: example_defs)
  have f: "\<forall>t \<in> set ([(1, ''host=n1'', 1)] @ [(2::int, ''host=n2'', 2::int)]).
      conninfo_fits example_h (fst (snd t))"
    using f1 f2 by simp
  from first_live_primary_returned[OF q1 q2 p t f, of "Some 0" "Some []" example_driver]
  obtain rc st' where
    g: "get_master_connection example_h example_cluster ?c (Some 0) (Some []) example_driver =
        Inr (Some rc, Some 2, Some ''host=n2'', st')"
    and a: "allocated st' = 3" and l: "last (probed st') = handle rc"
    and u: "handle rc \<in> set (unfinished st')"
    by (auto simp: example_h_def example_driver_def)
  have p': "passed_over example_h example_cluster (1, ''host=n1'', 1)" using p by simp
  show ?thesis using q1 q2 p' t f1 f2 g a u by blast
qed

text \<open>
  C3, for a node list whose conninfo are all within the buffer bounds. First: when the
  candidates of \<open>pre\<close> are passed over and the next one, \<open>t\<close>, cannot be connected to or
  fails its probe, the call still returns, and the driver is asked to connect to the
  candidate \<open>n\<close> that follows \<open>t\<close>. Second: when every candidate is passed over (failed
  connection, failed probe or recovering), the call returns NULL with \<^verbatim>\<open>*master_id\<close>, when
  given, left at \<^verbatim>\<open>NODE_NOT_FOUND\<close>, after a connection attempt to every candidate; it
  returns, it does not exit.
\<close>

theorem candidate_failure_does_not_abort:
  "(fst (node_list_query conn) = PGRES_TUPLES_OK \<and>
    (\<forall>x \<in> set (snd (node_list_query conn)). conninfo_fits h (fst (snd x))) \<and>
    snd (node_list_query conn) = pre @ t # n # post \<and>
    (\<forall>x \<in> set pre. passed_over h cluster x) \<and>
    (connect_fails h cluster (fst (snd t)) \<or> probe_result h cluster (fst (snd t)) = - 1) \<longrightarrow>
    (\<exists>r mid' out' st' k.
       get_master_connection h cluster conn master_id master_conninfo_out st =
         Inr (r, mid', out', st') \<and>
       length pre + 2 \<le> k \<and>
       connected st' = connected st @
         map (\<lambda>x. candidate_connection_string h (fst (snd x))) (take k (pre @ t # n # post)))) \<and>
   (fst (node_list_query conn) = PGRES_TUPLES_OK \<and>
    (\<forall>x \<in> set (snd (node_list_query conn)). conninfo_fits h (fst (snd x))) \<and>
    (\<forall>x \<in> set (snd (node_list_query conn)). passed_over h cluster x) \<longrightarrow>
    (\<exists>out' st'.
       get_master_connection h cluster conn master_id master_conninfo_out st =
         Inr (None, (case master_id of None \<Rightarrow> None | Some _ \<Rightarrow> Some (NODE_NOT_FOUND h)),
              out', st') \<and>
       connected st' = connected st @
         map (\<lambda>x. candidate_connection_string h (fst (snd x))) (snd (node_list_query conn))))"
proof (intro conjI impI)
  assume a: "fst (node_list_query conn) = PGRES_TUPLES_OK \<and>
    (\<forall>x \<in> set (snd (node_list_query conn)). conninfo_fits h (fst (snd x))) \<and>
    snd (node_list_query conn) = pre @ t # n # post \<and>
    (\<forall>x \<in> set pre. passed_over h cluster x) \<and>
    (connect_fails h cluster (fst (snd t)) \<or> probe_result h cluster (fst (snd t)) = - 1)"
  then have pt: "passed_over h cluster t" by (auto simp: passed_over_def)
  have s: "snd (node_list_query conn) = (pre @ [t]) @ (n # post)" using a by simp
  have p: "\<forall>x \<in> set (pre @ [t]). passed_over h cluster x" using a pt by auto
  from probe_order_taken[OF _ s _ p, of master_id master_conninfo_out st] a
  obtain r mid' out' st' k where
    "get_master_connection h cluster conn master_id master_conninfo_out st = Inr (r, mid', out', st')"
    "length (pre @ [t]) < k"
    "connected st' = connected st @
       map (\<lambda>t. candidate_connection_string h (fst (snd t))) (take k (snd (node_list_query conn)))"
    by auto
  then have "get_master_connection h cluster conn master_id master_conninfo_out st =
         Inr (r, mid', out', st') \<and>
       length pre + 2 \<le> k \<and>
       connected st' = connected st @
         map (\<lambda>x. candidate_connection_string h (fst (snd x))) (take k (pre @ t # n # post))"
    using a by simp
  then show "\<exists>r mid' out' st' k.
       get_master_connection h cluster conn master_id master_conninfo_out st =
         Inr (r, mid', out', st') \<and>
       length pre + 2 \<le> k \<and>
       connected st' = connected st @
         map (\<lambda>x. candidate_connection_string h (fst (snd x))) (take k (pre @ t # n # post))"
    by blast
next
  assume a: "fst (node_list_query conn) = PGRES_TUPLES_OK \<and>
    (\<forall>x \<in> set (snd (node_list_query conn)). conninfo_fits h (fst (snd x))) \<and>
    (\<forall>x \<in> set (snd (node_list_query conn)). passed_over h cluster x)"
  then have q: "fst (node_list_query conn) = PGRES_TUPLES_OK"
    and p: "\<forall>x \<in> set (snd (node_list_query conn)). passed_over h cluster x" by simp_all
  show "\<exists>out' st'.
       get_master_connection h cluster conn master_id master_conninfo_out st =
         Inr (None, (case master_id of None \<Rightarrow> None | Some _ \<Rightarrow> Some (NODE_NOT_FOUND h)),
              out', st') \<and>
       connected st' = connected st @
         map (\<lambda>x. candidate_connection_string h (fst (snd x))) (snd (node_list_query conn))"
    unfolding get_master_connection_none[OF q p]
    by (simp add: connected_fold_pass_over)
qed

theorem candidate_failure_does_not_abort_witness:
  "fst (node_list_query (example_registry
      [example_row 1 ''standby'' ''host=n1'', example_row 3 ''master'' ''host=n3'',
       example_row 4 ''standby'' ''host=n4''])) = PGRES_TUPLES_OK \<and>
   snd (node_list_query (example_registry
      [example_row 1 ''standby'' ''host=n1'', example_row 3 ''master'' ''host=n3'',
       example_row 4 ''standby'' ''host=n4''])) =
     [] @ (3, ''host=n3'', 1) # (1, ''host=n1'', 2) # [(4, ''host=n4'', 2)] \<and>
   conninfo_fits example_h ''host=n3'' \<and> conninfo_fits example_h ''host=n1'' \<and>
   conninfo_fits example_h ''host=n4'' \<and>
   connect_fails example_h example_cluster ''host=n3'' \<and>
   passed_over example_h example_cluster (3, ''host=n3'', 1) \<and>
   passed_over example_h example_cluster (1, ''host=n1'', 2) \<and>
   passed_over example_h example_cluster (4, ''host=n4'', 2) \<and>
   (\<exists>out' st'.
      get_master_connection example_h example_cluster (example_registry
        [example_row 1 ''standby'' ''host=n1'', example_row 3 ''master'' ''host=n3'',
         example_row 4 ''standby'' ''host=n4'']) (Some 0) None example_driver =
        Inr (None, Some (- 1), out', st') \<and>
      connected st' =
        [candidate_connection_string example_h ''host=n3'',
         candidate_connection_string example_h ''host=n1'',
         candidate_connection_string example_h ''host=n4''])"
proof -
  let ?c = "example_registry
      [example_row 1 ''standby'' ''host=n1'', example_row 3 ''master'' ''host=n3'',
       example_row 4 ''standby'' ''host=n4'']"
  have q: "node_list_query ?c =
      (PGRES_TUPLES_OK, [] @ (3, ''host=n3'', 1) # (1, ''host=n1'', 2) # [(4, ''host=n4'', 2)])"
    by (simp add: example_defs)
  have q1: "fst (node_list_query ?c) = PGRES_TUPLES_OK"
    and q2: "snd (node_list_query ?c) =
       [] @ (3, ''host=n3'', 1) # (1, ''host=n1'', 2) # [(4, ''host=n4'', 2)]"
    unfolding q by simp_all
  have f: "connect_fails example_h example_cluster ''host=n3''" by (simp add: example_defs)
  have p3: "passed_over example_h example_cluster (3, ''host=n3'', 1)" by (simp add: example_defs)
  have p1: "passed_over example_h example_cluster (1, ''host=n1'', 2)" by (simp add: example_defs)
  have p4: "passed_over example_h example_cluster (4, ''host=n4'', 2)" by (simp add: example_defs)
  have all: "\<forall>x \<in> set (snd (node_list_query ?c)). passed_over example_h example_cluster x"
    unfolding q2 using p1 p3 p4 by simp
  have f3: "conninfo_fits example_h ''host=n3''" and f1: "conninfo_fits example_h ''host=n1''"
    and f4: "conninfo_fits example_h ''host=n4''"
    by (simp_all add: example_defs)
  have fits: "\<forall>x \<in> set (snd (node_list_query ?c)). conninfo_fits example_h (fst (snd x))"
    unfolding q2 using f1 f3 f4 by simp
  have "\<exists>out' st'.
      get_master_connection example_h example_cluster ?c (Some 0) None example_driver =
        Inr (None, Some (- 1), out', st') \<and>
      connected st' =
        [candidate_connection_string example_h ''host=n3'',
         candidate_connection_string example_h ''host=n1'',
         candidate_connection_string example_h ''host=n4'']"
    using candidate_failure_does_not_abort
      [where conn = ?c and pre = "[]" and t = "(3, ''host=n3'', 1)" and n = "(1, ''host=n1'', 2)"
          and post = "[(4, ''host=n4'', 2)]" and h = example_h and cluster = example_cluster
          and master_id = "Some 0" and master_conninfo_out = None and st = example_driver]
      q1 all fits
    unfolding q2 by (simp add: example_h_def example_driver_def connected_def)
  then show ?thesis using q1 q2 f f1 f3 f4 p1 p3 p4 by blast
qed

text \<open>
  C4. The \<^verbatim>\<open>PGconn\<close> object of a candidate whose connection attempt failed is not released:
  when every candidate is passed over and the attempt for \<open>t\<close> fails, the call returns NULL
  and the object created for \<open>t\<close>, which did not exist before the call, is still among the
  objects \<^verbatim>\<open>PQfinish\<close> was not called on.
\<close>

theorem failed_connection_not_finished:
  assumes "fst (node_list_query conn) = PGRES_TUPLES_OK"
    and "snd (node_list_query conn) = pre @ t # post"
    and "\<forall>x \<in> set (pre @ t # post). passed_over h cluster x"
    and "connect_fails h cluster (fst (snd t))"
    and "libpq_ok st"
  shows "\<exists>mid' out' st'.
     get_master_connection h cluster conn master_id master_conninfo_out st =
       Inr (None, mid', out', st') \<and>
     allocated st + length pre \<notin> set (unfinished st) \<and>
     allocated st + length pre \<in> set (unfinished st')"
proof -
  let ?s = "fold (pass_over h cluster) pre st"
  have ok: "libpq_ok ?s" using assms(5) by (rule libpq_ok_fold_pass_over)
  have "allocated st + length pre \<in> set (unfinished (pass_over h cluster t ?s))"
    using assms(4) by (simp add: unfinished_pass_over[OF ok] allocated_fold_pass_over)
  from unfinished_fold_keeps[OF libpq_ok_pass_over[OF ok] this, where ts = post]
  have 1: "allocated st + length pre \<in>
      set (unfinished (fold (pass_over h cluster) (snd (node_list_query conn)) st))"
    unfolding assms(2) by simp
  have 2: "allocated st + length pre \<notin> set (unfinished st)"
    using assms(5) by (auto simp: libpq_ok_def)
  have p: "\<forall>x \<in> set (snd (node_list_query conn)). passed_over h cluster x"
    using assms(2,3) by simp
  show ?thesis
    unfolding get_master_connection_none[OF assms(1) p] using 1 2 by simp
qed

theorem failed_connection_not_finished_witness:
  "fst (node_list_query (example_registry [example_row 3 ''master'' ''host=n3''])) = PGRES_TUPLES_OK \<and>
   snd (node_list_query (example_registry [example_row 3 ''master'' ''host=n3''])) =
     [] @ (3, ''host=n3'', 1) # [] \<and>
   passed_over example_h example_cluster (3, ''host=n3'', 1) \<and>
   connect_fails example_h example_cluster ''host=n3'' \<and>
   libpq_ok example_driver \<and>
   (\<exists>mid' out' st'.
      get_master_connection example_h example_cluster
        (example_registry [example_row 3 ''master'' ''host=n3'']) None None example_driver =
        Inr (None, mid', out', st') \<and>
      1 \<notin> set (unfinished example_driver) \<and> 1 \<in> set (unfinished st'))"
proof -
  let ?c = "example_registry [example_row 3 ''master'' ''host=n3'']"
  have q: "node_list_query ?c = (PGRES_TUPLES_OK, [] @ (3, ''host=n3'', 1) # [])"
    by (simp add: example_defs)
  have q1: "fst (node_list_query ?c) = PGRES_TUPLES_OK"
    and q2: "snd (node_list_query ?c) = [] @ (3, ''host=n3'', 1) # []"
    unfolding q by simp_all
  have f: "connect_fails example_h example_cluster (fst (snd (3::int, ''host=n3'', 1::int)))"
    by (simp add: example_defs)
  have p3: "passed_over example_h example_cluster (3, ''host=n3'', 1)" by (simp add: example_defs)
  have all: "\<forall>x \<in> set ([] @ (3, ''host=n3'', 1) # []). passed_over example_h example_cluster x"
    using p3 by simp
  have ok: "libpq_ok example_driver" by (simp add: example_defs)
  have "\<exists>mid' out' st'.
      get_master_connection example_h example_cluster ?c None None example_driver =
        Inr (None, mid', out', st') \<and>
      1 \<notin> set (unfinished example_driver) \<and> 1 \<in> set (unfinished st')"
    using failed_connection_not_finished[OF q1 q2 all f ok, of None None]
    by (simp add: example_driver_def)
  then show ?thesis using q1 q2 p3 f ok by simp
qed

text \<open>
  C9. When the candidates before \<open>c\<close> are passed over, their conninfo and that of \<open>c\<close> are
  within the buffer bounds, \<open>c\<close> connects, and its probe query succeeds with a number of
  tuples other than one or with a first value other than \<^verbatim>\<open>"t"\<close>, then \<open>is_standby\<close> returns
  \<open>0\<close> on the connection to \<open>c\<close> and \<open>get_master_connection\<close> returns that connection, with
  the node id of \<open>c\<close> in \<^verbatim>\<open>*master_id\<close> when that is given.
\<close>

theorem ambiguous_probe_is_taken:
  assumes "fst (node_list_query conn) = PGRES_TUPLES_OK"
    and "snd (node_list_query conn) = pre @ c # post"
    and "\<forall>t \<in> set pre. passed_over h cluster t"
    and "\<not> connect_fails h cluster (fst (snd c))"
    and "srv_exec (candidate_server h cluster (fst (snd c)))
           ''SELECT pg_catalog.pg_is_in_recovery()'' = Some res"
    and "resultStatus res = PGRES_TUPLES_OK"
    and "length (tuples res) \<noteq> 1 \<or> tuples res ! 0 \<noteq> ''t''"
    and "\<forall>t \<in> set (pre @ [c]). conninfo_fits h (fst (snd t))"
  shows "\<exists>remote_conn out' st'.
     get_master_connection h cluster conn master_id master_conninfo_out st =
       Inr (Some remote_conn, (case master_id of None \<Rightarrow> None | Some _ \<Rightarrow> Some (fst c)),
            out', st') \<and>
     server remote_conn = candidate_server h cluster (fst (snd c)) \<and>
     fst (is_standby remote_conn st) = 0"
proof -
  have z: "is_standby_result (srv_exec (candidate_server h cluster (fst (snd c)))
           ''SELECT pg_catalog.pg_is_in_recovery()'') = 0"
    unfolding assms(5) using assms(6,7) by (rule is_standby_result_ambiguous)
  then have t: "taken h cluster c" using assms(4) by (simp add: taken_def probe_result_def)
  let ?rc = "\<lparr>handle = allocated st + length pre,
              server = candidate_server h cluster (fst (snd c))\<rparr>"
  have "fst (is_standby ?rc st) = 0" unfolding fst_is_standby using z by simp
  then show ?thesis
    unfolding get_master_connection_some[OF assms(1,2,3) t] by simp
qed

theorem ambiguous_probe_is_taken_witness:
  "fst (node_list_query (example_registry
      [example_row 5 ''standby'' ''host=n5'', example_row 1 ''master'' ''host=n1''])) = PGRES_TUPLES_OK \<and>
   snd (node_list_query (example_registry
      [example_row 5 ''standby'' ''host=n5'', example_row 1 ''master'' ''host=n1''])) =
     [(1, ''host=n1'', 1)] @ (5, ''host=n5'', 2) # [] \<and>
   passed_over example_h example_cluster (1, ''host=n1'', 1) \<and>
   conninfo_fits example_h ''host=n1'' \<and> conninfo_fits example_h ''host=n5'' \<and>
   \<not> connect_fails example_h example_cluster ''host=n5'' \<and>
   srv_exec (candidate_server example_h example_cluster ''host=n5'')
     ''SELECT pg_catalog.pg_is_in_recovery()'' = Some \<lparr>resultStatus = PGRES_TUPLES_OK, tuples = []\<rparr> \<and>
   length (tuples \<lparr>resultStatus = PGRES_TUPLES_OK, tuples = []\<rparr>) \<noteq> 1 \<and>
   (\<exists>remote_conn out' st'.
      get_master_connection example_h example_cluster (example_registry
        [example_row 5 ''standby'' ''host=n5'', example_row 1 ''master'' ''host=n1''])
        (Some 0) None example_driver =
        Inr (Some remote_conn, Some 5, out', st') \<and>
      fst (is_standby remote_conn example_driver) = 0)"
proof -
  let ?c = "example_registry
      [example_row 5 ''standby'' ''host=n5'', example_row 1 ''master'' ''host=n1'']"
  let ?res = "\<lparr>resultStatus = PGRES_TUPLES_OK, tuples = []\<rparr>"
  have q: "node_list_query ?c = (PGRES_TUPLES_OK, [(1, ''host=n1'', 1)] @ (5, ''host=n5'', 2) # [])"
    by (simp add: example_defs)
  have q1: "fst (node_list_query ?c) = PGRES_TUPLES_OK"
    and q2: "snd (node_list_query ?c) = [(1, ''host=n1'', 1)] @ (5, ''host=n5'', 2) # []"
    unfolding q by simp_all
  have p1: "passed_over example_h example_cluster (1, ''host=n1'', 1)" by (simp add: example_defs)
  have p: "\<forall>t \<in> set [(1, ''host=n1'', 1)]. passed_over example_h example_cluster t"
    using p1 by simp
  have nf: "\<not> connect_fails example_h example_cluster (fst (snd (5::int, ''host=n5'', 2::int)))"
    by (simp add: example_defs)
  have r: "srv_exec (candidate_server example_h example_cluster (fst (snd (5::int, ''host=n5'', 2::int))))
     ''SELECT pg_catalog.pg_is_in_recovery()'' = Some ?res"
    by (simp add: example_defs)
  have f1: "conninfo_fits example_h ''host=n1''" and f5: "conninfo_fits example_h ''host=n5''"
    by (simp_all add: example_defs)
  have f: "\<forall>t \<in> set ([(1, ''host=n1'', 1)] @ [(5::int, ''host=n5'', 2::int)]).
      conninfo_fits example_h (fst (snd t))"
    using f1 f5 by simp
  have s: "resultStatus ?res = PGRES_TUPLES_OK" by simp
  have l: "length (tuples ?res) \<noteq> 1 \<or> tuples ?res ! 0 \<noteq> ''t''" by simp
  have "\<exists>remote_conn out' st'.
      get_master_connection example_h example_cluster ?c (Some 0) None example_driver =
        Inr (Some remote_conn, Some 5, out', st') \<and>
      fst (is_standby remote_conn example_driver) = 0"
    using ambiguous_probe_is_taken[OF q1 q2 p nf r s l f, of "Some 0" None example_driver]
    by auto
  then show ?thesis using q1 q2 p1 nf r f1 f5 by simp
qed

text \<open>
  C10, as amended. Given a buffer, when \<open>get_master_connection\<close> returns NULL the buffer
  holds the first \<^verbatim>\<open>MAXCONNINFO\<close> characters of the conninfo of the last candidate of the
  node list, provided the list could be retrieved and is not empty; otherwise no
  candidate was examined and the buffer is as the caller left it.
\<close>

theorem conninfo_out_after_null:
  assumes "get_master_connection h cluster conn master_id (Some b) st = Inr (None, mid', out', st')"
  shows "out' = Some (if fst (node_list_query conn) = PGRES_TUPLES_OK \<and> snd (node_list_query conn) \<noteq> []
                     then take (MAXCONNINFO h) (fst (snd (last (snd (node_list_query conn)))))
                     else b)"
proof (cases "fst (node_list_query conn) = PGRES_TUPLES_OK")
  case False
  then show ?thesis
    using assms unfolding get_master_connection_failed_query[OF False] by simp
next
  case True
  from candidates_split[of "snd (node_list_query conn)" h cluster] show ?thesis
  proof
    assume p: "\<forall>t \<in> set (snd (node_list_query conn)). passed_over h cluster t"
    show ?thesis
      using assms True unfolding get_master_connection_none[OF True p] by auto
  next
    assume "\<exists>pre c post. snd (node_list_query conn) = pre @ c # post \<and>
       (\<forall>t \<in> set pre. passed_over h cluster t) \<and> taken h cluster c"
    then obtain pre c post where s: "snd (node_list_query conn) = pre @ c # post"
      and p: "\<forall>t \<in> set pre. passed_over h cluster t" and t: "taken h cluster c" by blast
    show ?thesis
      using assms unfolding get_master_connection_some[OF True s p t] by simp
  qed
qed

theorem conninfo_out_after_null_witness:
  "get_master_connection example_h example_cluster
     (example_registry [example_row 1 ''master'' ''host=n1'', example_row 3 ''standby'' ''host=n3''])
     None (Some ''previous'') example_driver =
     Inr (None, None, Some ''host=n3'',
          fold (pass_over example_h example_cluster) [(1, ''host=n1'', 1), (3, ''host=n3'', 2)]
            example_driver)"
proof -
  let ?c = "example_registry [example_row 1 ''master'' ''host=n1'', example_row 3 ''standby'' ''host=n3'']"
  have q: "node_list_query ?c = (PGRES_TUPLES_OK, [(1, ''host=n1'', 1), (3, ''host=n3'', 2)])"
    by (simp add: example_defs)
  have q1: "fst (node_list_query ?c) = PGRES_TUPLES_OK" unfolding q by simp
  have p: "\<forall>t \<in> set (snd (node_list_query ?c)). passed_over example_h example_cluster t"
    unfolding q by (simp add: example_defs)
  have g: "get_master_connection example_h example_cluster ?c None (Some ''previous'') example_driver =
     Inr (None, None, Some ''host=n3'',
          fold (pass_over example_h example_cluster) [(1, ''host=n1'', 1), (3, ''host=n3'', 2)]
            example_driver)"
    unfolding get_master_connection_none[OF q1 p] unfolding q by (simp add: example_h_def)
  from conninfo_out_after_null[OF g] g show ?thesis by simp
qed

text \<open>
  C10 as stated fails when there is no candidate: on a registry without rows the call
  returns NULL and the buffer still holds what the caller put there.
\<close>

theorem conninfo_out_unchanged_counterexample:
  "get_master_connection example_h example_cluster (example_registry [])
     None (Some ''previous'') example_driver =
     Inr (None, None, Some ''previous'', example_driver)"
  by (simp add: get_master_connection_def example_defs)

end
